theory Spec2Isabelle
  imports Complex_Main
begin

section \<open>Strings and paths\<close>

text \<open>
  Paths and names are Python \<open>str\<close> values, modelled as \<open>string\<close>. The source runs
  on \<open>os.path\<close>; the POSIX flavour (\<open>posixpath\<close>, separator \<open>/\<close>) is the one embedded.
  \<open>lower\<close> is \<open>str.lower\<close> on the ASCII letters; every other character is left as it is.
\<close>

definition lower_char :: "char \<Rightarrow> char" where
  "lower_char c =
     (case map_of (zip ''ABCDEFGHIJKLMNOPQRSTUVWXYZ'' ''abcdefghijklmnopqrstuvwxyz'') c of
        Some d \<Rightarrow> d
      | None \<Rightarrow> c)"

definition lower :: "string \<Rightarrow> string" where
  "lower s = map lower_char s"

primrec startswith :: "string \<Rightarrow> string \<Rightarrow> bool" where
  "startswith [] pre = (pre = [])"
| "startswith (c # cs) pre =
     (case pre of [] \<Rightarrow> True | p # ps \<Rightarrow> c = p \<and> startswith cs ps)"

text \<open>\<open>contains sub s\<close> is Python's \<open>sub in s\<close> on strings.\<close>

primrec contains :: "string \<Rightarrow> string \<Rightarrow> bool" where
  "contains sub [] = (sub = [])"
| "contains sub (c # cs) = (startswith (c # cs) sub \<or> contains sub cs)"

definition sep :: char where
  "sep = CHR ''/''"

definition extsep :: char where
  "extsep = CHR ''.''"

text \<open>\<open>os.path.basename\<close>: everything after the last separator.\<close>

definition basename :: "string \<Rightarrow> string" where
  "basename p = rev (takeWhile (\<lambda>c. c \<noteq> sep) (rev p))"

text \<open>
  \<open>os.path.dirname\<close>: the part up to and including the last separator, with its
  trailing separators stripped unless it consists of separators only.
\<close>

definition dirname :: "string \<Rightarrow> string" where
  "dirname p =
     (let head = rev (dropWhile (\<lambda>c. c \<noteq> sep) (rev p))
      in if head \<noteq> [] \<and> (\<exists>c \<in> set head. c \<noteq> sep)
         then rev (dropWhile (\<lambda>c. c = sep) (rev head))
         else head)"

text \<open>
  \<open>os.path.splitext\<close>: the extension starts at the last dot of the last path
  component, unless only dots precede it there.
\<close>

definition splitext :: "string \<Rightarrow> string \<times> string" where
  "splitext p =
     (let b = basename p;
          d = rev (dropWhile (\<lambda>c. c \<noteq> sep) (rev p))
      in if extsep \<in> set b
         then (let ext = rev (takeWhile (\<lambda>c. c \<noteq> extsep) (rev b));
                   stem = rev (tl (dropWhile (\<lambda>c. c \<noteq> extsep) (rev b)))
               in if (\<exists>c \<in> set stem. c \<noteq> extsep)
                  then (d @ stem, extsep # ext)
                  else (p, []))
         else (p, []))"

text \<open>\<open>os.path.join\<close> of two components.\<close>

definition join :: "string \<Rightarrow> string \<Rightarrow> string" where
  "join a b =
     (if startswith b [sep] then b
      else if a = [] \<or> last a = sep then a @ b
      else a @ sep # b)"

section \<open>Dictionaries\<close>

text \<open>
  A Python \<open>dict\<close> keeps its keys in insertion order, and the matcher hands the keys,
  in that order, to the fuzzy search, whose ties go to the earlier key. So a dictionary is
  an association list without repeated keys: storing under a present key replaces the
  value where it stands, storing under a new key appends.
\<close>

fun dict_set :: "('k \<times> 'v) list \<Rightarrow> 'k \<Rightarrow> 'v \<Rightarrow> ('k \<times> 'v) list" where
  "dict_set [] k v = [(k, v)]"
| "dict_set ((k', v') # d) k v =
     (if k' = k then (k, v) # d else (k', v') # dict_set d k v)"

definition keys :: "('k \<times> 'v) list \<Rightarrow> 'k list" where
  "keys d = map fst d"

datatype py_error = KeyError | OSError | ValueError | IndexError

text \<open>\<open>d[k]\<close>, which raises \<open>KeyError\<close> on a missing key.\<close>

definition dict_get :: "('k \<times> 'v) list \<Rightarrow> 'k \<Rightarrow> py_error + 'v" where
  "dict_get d k = (case map_of d k of None \<Rightarrow> Inl KeyError | Some v \<Rightarrow> Inr v)"

section \<open>The fuzzy search of the matcher\<close>

text \<open>
  The similarity scorer (\<open>rapidfuzz.fuzz.ratio\<close>) is a parameter \<open>scorer\<close> of the
  embedding; its floating-point results are read as rationals. \<open>process_extract\<close> and
  \<open>process_extractOne\<close> are \<open>process.extract\<close> and \<open>process.extractOne\<close> of
  rapidfuzz on a sequence of choices: every result is a triple of the choice, its score
  and its index. \<open>process.extract\<close> drops the scores below \<open>score_cutoff\<close>, orders by
  score, best first, ties by index, and keeps at most \<open>limit\<close> results; \<open>limit\<close> is 5
  when the caller passes none. \<open>process.extractOne\<close> returns the first choice of the best
  score, or nothing for no choices; it stops at a score of 100, which changes nothing for
  a scorer that, like \<open>fuzz.ratio\<close>, never exceeds 100.
\<close>

type_synonym scorer = "string \<Rightarrow> string \<Rightarrow> rat"

type_synonym hit = "string \<times> rat \<times> nat"

definition default_limit :: nat where
  "default_limit = 5"

definition scored :: "scorer \<Rightarrow> string \<Rightarrow> string list \<Rightarrow> hit list" where
  "scored scorer query choices =
     map (\<lambda>(c, i). (c, scorer query c, i)) (zip choices [0 ..< length choices])"

definition process_extract :: "scorer \<Rightarrow> string \<Rightarrow> string list \<Rightarrow> rat option \<Rightarrow> nat \<Rightarrow> hit list" where
  "process_extract scorer query choices score_cutoff limit =
     take limit
       (sort_key (\<lambda>(c, s, i). - s)
          (filter (\<lambda>(c, s, i). case score_cutoff of None \<Rightarrow> True | Some t \<Rightarrow> t \<le> s)
             (scored scorer query choices)))"

definition process_extractOne :: "scorer \<Rightarrow> string \<Rightarrow> string list \<Rightarrow> hit option" where
  "process_extractOne scorer query choices =
     foldl (\<lambda>result (c, s, i).
              case result of
                None \<Rightarrow> Some (c, s, i)
              | Some (c', s', i') \<Rightarrow> if s' < s then Some (c, s, i) else result)
       None (scored scorer query choices)"

text \<open>
  \<open>ratio\<close> is \<open>fuzz.ratio\<close> in exact arithmetic, the normalised Indel similarity
  \<open>100 * 2 * lcs / (len1 + len2)\<close> (100 for two empty strings); it is the scorer of the
  concrete evaluations below.
\<close>

fun lcs :: "string \<Rightarrow> string \<Rightarrow> nat" where
  "lcs [] ys = 0"
| "lcs (x # xs) [] = 0"
| "lcs (x # xs) (y # ys) =
     (if x = y then Suc (lcs xs ys) else max (lcs xs (y # ys)) (lcs (x # xs) ys))"

definition ratio :: scorer where
  "ratio s1 s2 =
     (if length s1 + length s2 = 0 then 100
      else 200 * of_nat (lcs s1 s2) / of_nat (length s1 + length s2))"

section \<open>FileMatcher.find_matches\<close>

text \<open>
  The three results of \<open>find_matches\<close>: \<open>standard_matches\<close> (video, NFO, score),
  \<open>unmatched\<close> (video, suggestions) and the dictionary \<open>one_piece_matches\<close> from a video
  to its destinations.
\<close>

record mstate =
  standard_matches :: "(string \<times> string \<times> rat) list"
  unmatched :: "(string \<times> hit list) list"
  one_piece_matches :: "(string \<times> (string \<times> rat) list) list"

definition mstate_init :: mstate where
  "mstate_init = \<lparr>standard_matches = [], unmatched = [], one_piece_matches = []\<rparr>"

definition is_one_piece :: "string \<Rightarrow> bool" where
  "is_one_piece name = contains ''one piece'' (lower name)"

definition stem :: "string \<Rightarrow> string" where
  "stem path = fst (splitext (basename path))"

definition nfo_basenames_of :: "string list \<Rightarrow> (string \<times> string) list" where
  "nfo_basenames_of nfo_files = foldl (\<lambda>d nfo. dict_set d (stem nfo) nfo) [] nfo_files"

definition op_nfo_choices_of :: "(string \<times> string) list \<Rightarrow> (string \<times> string) list" where
  "op_nfo_choices_of nfo_basenames = filter (\<lambda>(k, v). is_one_piece k) nfo_basenames"

definition non_op_nfo_choices_of :: "(string \<times> string) list \<Rightarrow> (string \<times> string) list" where
  "non_op_nfo_choices_of nfo_basenames = filter (\<lambda>(k, v). \<not> is_one_piece k) nfo_basenames"

definition override_score :: rat where
  "override_score = 101"

text \<open>The list comprehension of line 311: each hit with the NFO of its key.\<close>

fun destinations_of :: "(string \<times> string) list \<Rightarrow> hit list \<Rightarrow> py_error + (string \<times> rat) list" where
  "destinations_of d [] = Inr []"
| "destinations_of d ((c, s, i) # hs) =
     (case dict_get d c of
        Inl e \<Rightarrow> Inl e
      | Inr nfo \<Rightarrow>
          (case destinations_of d hs of
             Inl e \<Rightarrow> Inl e
           | Inr rest \<Rightarrow> Inr ((nfo, s) # rest)))"

text \<open>
  Steps 1 and 2 of the loop body (the \<open>if\<close> on the rename dictionary and its
  \<open>elif\<close> on One Piece), returning the results so far and \<open>found_match\<close>.
\<close>

definition rename_or_one_piece ::
  "scorer \<Rightarrow> (string \<times> string) list \<Rightarrow> (string \<rightharpoonup> string) \<Rightarrow> rat \<Rightarrow> mstate \<Rightarrow> string
     \<Rightarrow> py_error + (mstate \<times> bool)" where
  "rename_or_one_piece scorer nfo_basenames rename_dict threshold st video =
     (let video_basename = stem video in
      case rename_dict video_basename of
        Some nfo_target_name \<Rightarrow>
          (if nfo_target_name \<in> set (keys nfo_basenames)
           then (case dict_get nfo_basenames nfo_target_name of
                   Inl e \<Rightarrow> Inl e
                 | Inr nfo \<Rightarrow>
                     Inr (st\<lparr>standard_matches :=
                               standard_matches st @ [(video, nfo, override_score)]\<rparr>, True))
           else Inr (st, False))
      | None \<Rightarrow>
          (if is_one_piece video_basename
           then (let op_nfo_choices = op_nfo_choices_of nfo_basenames;
                     possible_matches =
                       process_extract scorer video_basename (keys op_nfo_choices)
                         (Some threshold) default_limit
                 in if possible_matches \<noteq> []
                    then (case destinations_of op_nfo_choices possible_matches of
                            Inl e \<Rightarrow> Inl e
                          | Inr dests \<Rightarrow>
                              Inr (st\<lparr>one_piece_matches :=
                                        dict_set (one_piece_matches st) video dests\<rparr>, True))
                    else Inr (st, False))
           else Inr (st, False)))"

text \<open>Step 3, run when nothing was found: the single best NFO outside One Piece.\<close>

definition basic_match ::
  "scorer \<Rightarrow> (string \<times> string) list \<Rightarrow> rat \<Rightarrow> mstate \<Rightarrow> string
     \<Rightarrow> py_error + (mstate \<times> bool)" where
  "basic_match scorer nfo_basenames threshold st video =
     (let video_basename = stem video;
          non_op_nfo_choices = non_op_nfo_choices_of nfo_basenames
      in case process_extractOne scorer video_basename (keys non_op_nfo_choices) of
           None \<Rightarrow> Inr (st, False)
         | Some (matched_nfo_name, score, i) \<Rightarrow>
             (if threshold \<le> score
              then (case dict_get non_op_nfo_choices matched_nfo_name of
                      Inl e \<Rightarrow> Inl e
                    | Inr nfo \<Rightarrow>
                        Inr (st\<lparr>standard_matches :=
                                  standard_matches st @ [(video, nfo, score)]\<rparr>, True))
              else Inr (st, False)))"

text \<open>Step 4, run when still nothing was found: five suggestions among all NFOs.\<close>

definition suggest :: "scorer \<Rightarrow> (string \<times> string) list \<Rightarrow> mstate \<Rightarrow> string \<Rightarrow> mstate" where
  "suggest scorer nfo_basenames st video =
     (let suggestions = process_extract scorer (stem video) (keys nfo_basenames) None 5
      in st\<lparr>unmatched := unmatched st @ [(video, suggestions)]\<rparr>)"

text \<open>The body of the loop over the videos.\<close>

definition match_video ::
  "scorer \<Rightarrow> (string \<times> string) list \<Rightarrow> (string \<rightharpoonup> string) \<Rightarrow> rat \<Rightarrow> mstate \<Rightarrow> string
     \<Rightarrow> py_error + mstate" where
  "match_video scorer nfo_basenames rename_dict threshold st video =
     (case rename_or_one_piece scorer nfo_basenames rename_dict threshold st video of
        Inl e \<Rightarrow> Inl e
      | Inr (st1, found1) \<Rightarrow>
          (case (if \<not> found1 then basic_match scorer nfo_basenames threshold st1 video
                 else Inr (st1, found1)) of
             Inl e \<Rightarrow> Inl e
           | Inr (st2, found2) \<Rightarrow>
               Inr (if \<not> found2 then suggest scorer nfo_basenames st2 video else st2)))"

fun match_videos ::
  "scorer \<Rightarrow> (string \<times> string) list \<Rightarrow> (string \<rightharpoonup> string) \<Rightarrow> rat \<Rightarrow> mstate \<Rightarrow> string list
     \<Rightarrow> py_error + mstate" where
  "match_videos scorer nfo_basenames rename_dict threshold st [] = Inr st"
| "match_videos scorer nfo_basenames rename_dict threshold st (video # videos) =
     (case match_video scorer nfo_basenames rename_dict threshold st video of
        Inl e \<Rightarrow> Inl e
      | Inr st' \<Rightarrow> match_videos scorer nfo_basenames rename_dict threshold st' videos)"

definition find_matches ::
  "scorer \<Rightarrow> string list \<Rightarrow> string list \<Rightarrow> (string \<rightharpoonup> string) \<Rightarrow> rat \<Rightarrow> py_error + mstate" where
  "find_matches scorer video_files nfo_files rename_dict threshold =
     match_videos scorer (nfo_basenames_of nfo_files) rename_dict threshold mstate_init
       video_files"

text \<open>The call without a threshold takes the default of the signature, 95.\<close>

definition default_threshold :: rat where
  "default_threshold = 95"

definition find_matches_default ::
  "scorer \<Rightarrow> string list \<Rightarrow> string list \<Rightarrow> (string \<rightharpoonup> string) \<Rightarrow> py_error + mstate" where
  "find_matches_default scorer video_files nfo_files rename_dict =
     find_matches scorer video_files nfo_files rename_dict default_threshold"

section \<open>The filesystem and its failures\<close>

text \<open>
  The filesystem holds the content of every file by path and the set of directories.
  What the operating system may refuse (permissions, a link across devices, a full disk)
  is not decided by the program: the environment says, for a placement of a source at a
  destination, whether creating the directories or transferring the file fails, whether
  the platform is Windows, and whether \<open>fsutil\<close> succeeds there. A transfer fails
  either before anything exists at the destination (\<open>TransferFault\<close>: an unreadable
  source, a refused destination) or, for a copy, after a number of bytes have been
  written there (\<open>PartialFault\<close>: a full disk, an input/output error).
\<close>

record fs =
  files :: "string \<rightharpoonup> string"
  dirs :: "string set"

datatype fault = NoFault | MakedirsFault | TransferFault | PartialFault nat

text \<open>\<open>os.link\<close> creates the link at once or not at all: any fault of the transfer refuses it.\<close>

fun link_refused :: "fault \<Rightarrow> bool" where
  "link_refused NoFault = False"
| "link_refused MakedirsFault = True"
| "link_refused TransferFault = True"
| "link_refused (PartialFault written) = True"

record env =
  is_windows :: bool
  fault_at :: "string \<Rightarrow> string \<Rightarrow> fault"
  fsutil_ok :: "string \<Rightarrow> string \<Rightarrow> bool"

text \<open>\<open>os.path.exists\<close>.\<close>

definition path_exists :: "fs \<Rightarrow> string \<Rightarrow> bool" where
  "path_exists f p = (case files f p of Some content \<Rightarrow> True | None \<Rightarrow> p \<in> dirs f)"

text \<open>The directory and the directories above it, up to the root.\<close>

fun ancestors :: "nat \<Rightarrow> string \<Rightarrow> string list" where
  "ancestors 0 d = []"
| "ancestors (Suc n) d =
     (if (\<exists>c \<in> set d. c \<noteq> sep) then d # ancestors n (dirname d) else [])"

text \<open>\<open>os.makedirs(d, exist_ok=True)\<close> where it succeeds.\<close>

definition makedirs :: "string \<Rightarrow> fs \<Rightarrow> fs" where
  "makedirs d f = f\<lparr>dirs := dirs f \<union> set (ancestors (length d) d)\<rparr>"

datatype event =
    Warning_ignored string string
  | Info_placing string string rat
  | Error_hardlink string string
  | Error_fsutil
  | Error_placing string string

text \<open>
  \<open>FileSystemManager.copy_file\<close>: the result is the exception raised, if any, and the
  filesystem left behind. \<open>shutil.copy2\<close> writes into a destination that is a directory
  and needs the source file. It is given the final path itself and fills it as it goes,
  so a copy that stops after some bytes leaves those bytes there.
\<close>

definition copy_file :: "env \<Rightarrow> string \<Rightarrow> string \<Rightarrow> fs \<Rightarrow> py_error option \<times> fs" where
  "copy_file e source destination f =
     (let d = dirname destination in
      if d = [] \<or> fault_at e source destination = MakedirsFault then (Some OSError, f)
      else (let f1 = makedirs d f;
                target = (if destination \<in> dirs f1 then join destination (basename source)
                          else destination)
            in case files f1 source of
                 None \<Rightarrow> (Some OSError, f1)
               | Some content \<Rightarrow>
                   (case fault_at e source destination of
                      NoFault \<Rightarrow> (None, f1\<lparr>files := (files f1)(target \<mapsto> content)\<rparr>)
                    | MakedirsFault \<Rightarrow> (Some OSError, f1)
                    | TransferFault \<Rightarrow> (Some OSError, f1)
                    | PartialFault written \<Rightarrow>
                        (Some OSError,
                         f1\<lparr>files := (files f1)(target \<mapsto> take written content)\<rparr>))))"

text \<open>
  \<open>FileSystemManager.create_atomic_link\<close>: an exception of \<open>os.makedirs\<close> leaves the
  function; an \<open>OSError\<close> of \<open>os.link\<close> is caught and logged, \<open>fsutil\<close> is tried on
  Windows, its failure is logged too, and the function returns normally in every case.
\<close>

definition create_atomic_link ::
  "env \<Rightarrow> string \<Rightarrow> string \<Rightarrow> fs \<Rightarrow> py_error option \<times> fs \<times> event list" where
  "create_atomic_link e source destination f =
     (let d = dirname destination in
      if d = [] \<or> fault_at e source destination = MakedirsFault then (Some OSError, f, [])
      else (let f1 = makedirs d f in
            case files f1 source of
              Some content \<Rightarrow>
                (if link_refused (fault_at e source destination) \<or> path_exists f1 destination
                 then (if is_windows e
                       then (if fsutil_ok e source destination \<and> \<not> path_exists f1 destination
                             then (None, f1\<lparr>files := (files f1)(destination \<mapsto> content)\<rparr>,
                                   [Error_hardlink source destination])
                             else (None, f1, [Error_hardlink source destination, Error_fsutil]))
                       else (None, f1, [Error_hardlink source destination]))
                 else (None, f1\<lparr>files := (files f1)(destination \<mapsto> content)\<rparr>, []))
            | None \<Rightarrow>
                (if is_windows e
                 then (None, f1, [Error_hardlink source destination, Error_fsutil])
                 else (None, f1, [Error_hardlink source destination]))))"

section \<open>FilePlacer.place_files\<close>

text \<open>
  \<open>Path(nfo).relative_to(media_root).parts[0]\<close>. The parts of a pure POSIX path are its
  root, if any, and its components other than the empty one and the dot.
\<close>

fun split_sep :: "string \<Rightarrow> string list" where
  "split_sep [] = [[]]"
| "split_sep (c # cs) =
     (if c = sep then [] # split_sep cs
      else (case split_sep cs of [] \<Rightarrow> [[c]] | w # ws \<Rightarrow> (c # w) # ws))"

definition path_root :: "string \<Rightarrow> string list" where
  "path_root p =
     (if startswith p ''//'' \<and> \<not> startswith p ''///'' then [''//'']
      else if startswith p ''/'' then [''/'']
      else [])"

definition parts :: "string \<Rightarrow> string list" where
  "parts p = path_root p @ filter (\<lambda>s. s \<noteq> [] \<and> s \<noteq> ''.'') (split_sep p)"

definition serie_folder_of :: "string \<Rightarrow> string \<Rightarrow> py_error + string" where
  "serie_folder_of nfo media_root =
     (let ps = parts nfo; rs = parts media_root; n = length rs in
      if (if n = 0 then path_root nfo \<noteq> [] else take n ps \<noteq> rs) then Inl ValueError
      else (case drop n ps of [] \<Rightarrow> Inl IndexError | folder # rest \<Rightarrow> Inr folder))"

record pstate =
  filesystem :: fs
  placed_files :: "string list"
  updated_series :: "string set"
  journal :: "event list"

text \<open>
  The two statements that file a standard match under its video in \<open>all_matches\<close>: a
  video without an entry gets an empty list first, then the pair is appended.
\<close>

fun add_match ::
  "(string \<times> (string \<times> rat) list) list \<Rightarrow> string \<times> string \<times> rat
     \<Rightarrow> (string \<times> (string \<times> rat) list) list" where
  "add_match [] (video, nfo, score) = [(video, [(nfo, score)])]"
| "add_match ((v, options) # d) (video, nfo, score) =
     (if v = video then (v, options @ [(nfo, score)]) # d
      else (v, options) # add_match d (video, nfo, score))"

definition destination_of :: "string \<Rightarrow> string \<Rightarrow> string" where
  "destination_of video nfo = join (dirname nfo) (stem nfo @ snd (splitext video))"

text \<open>
  The body of the inner loop, for one destination of a video. \<open>os.path.relpath\<close> in the
  log line raises \<open>ValueError\<close> on an empty path.
\<close>

definition place_one ::
  "env \<Rightarrow> string \<Rightarrow> string \<Rightarrow> string \<Rightarrow> bool \<Rightarrow> bool \<Rightarrow> pstate \<Rightarrow> string \<times> rat \<Rightarrow> pstate" where
  "place_one e placement_mode media_root video is_op_video is_yabai_release st option =
     (case option of (nfo, score) \<Rightarrow>
        if is_op_video \<and> contains ''one piece yabai'' (lower nfo) \<and> \<not> is_yabai_release
        then st\<lparr>journal := journal st @ [Warning_ignored video nfo]\<rparr>
        else (let destination_file = destination_of video nfo in
              if path_exists (filesystem st) destination_file then st
              else if destination_file = []
              then st\<lparr>journal := journal st @ [Error_placing video destination_file]\<rparr>
              else (let st1 = st\<lparr>journal :=
                                   journal st @ [Info_placing video destination_file score]\<rparr>;
                        (raised, f', events) =
                          (if placement_mode = ''c''
                           then (case copy_file e video destination_file (filesystem st1) of
                                   (r, f') \<Rightarrow> (r, f', []))
                           else create_atomic_link e video destination_file (filesystem st1));
                        st2 = st1\<lparr>filesystem := f', journal := journal st1 @ events\<rparr>
                    in case raised of
                         Some err \<Rightarrow>
                           st2\<lparr>journal := journal st2 @ [Error_placing video destination_file]\<rparr>
                       | None \<Rightarrow>
                           (let st3 = st2\<lparr>placed_files := placed_files st2 @ [video]\<rparr>
                            in case serie_folder_of nfo media_root of
                                 Inl err \<Rightarrow>
                                   st3\<lparr>journal :=
                                         journal st3 @ [Error_placing video destination_file]\<rparr>
                               | Inr serie_folder \<Rightarrow>
                                   st3\<lparr>updated_series :=
                                         insert serie_folder (updated_series st3)\<rparr>))))"

text \<open>The body of the outer loop, for one video and all its destinations.\<close>

definition place_video ::
  "env \<Rightarrow> string \<Rightarrow> string \<Rightarrow> pstate \<Rightarrow> string \<times> (string \<times> rat) list \<Rightarrow> pstate" where
  "place_video e placement_mode media_root st entry =
     (case entry of (video, nfo_options) \<Rightarrow>
        (let is_op_video = contains ''one piece'' (lower (basename video));
             is_yabai_release = contains ''yabai'' (lower (basename video))
         in foldl (place_one e placement_mode media_root video is_op_video is_yabai_release)
              st nfo_options))"

definition all_matches_of ::
  "(string \<times> string \<times> rat) list \<Rightarrow> (string \<times> (string \<times> rat) list) list
     \<Rightarrow> (string \<times> (string \<times> rat) list) list" where
  "all_matches_of standard op_matches = foldl add_match op_matches standard"

definition pstate_init :: "fs \<Rightarrow> pstate" where
  "pstate_init f = \<lparr>filesystem = f, placed_files = [], updated_series = {}, journal = []\<rparr>"

definition place_loop ::
  "env \<Rightarrow> (string \<times> string \<times> rat) list \<Rightarrow> (string \<times> (string \<times> rat) list) list
     \<Rightarrow> string \<Rightarrow> string \<Rightarrow> fs \<Rightarrow> pstate" where
  "place_loop e standard op_matches placement_mode media_root f =
     foldl (place_video e placement_mode media_root) (pstate_init f)
       (all_matches_of standard op_matches)"

text \<open>
  \<open>place_files\<close> returns the set of the placed videos and the updated series; the
  filesystem and the log it leaves are the other two components here.
\<close>

definition place_files ::
  "env \<Rightarrow> (string \<times> string \<times> rat) list \<Rightarrow> (string \<times> (string \<times> rat) list) list
     \<Rightarrow> string \<Rightarrow> string \<Rightarrow> fs \<Rightarrow> string set \<times> string set \<times> fs \<times> event list" where
  "place_files e standard op_matches placement_mode media_root f =
     (let st = place_loop e standard op_matches placement_mode media_root f
      in (set (placed_files st), updated_series st, filesystem st, journal st))"

section \<open>Notions used by the properties\<close>

text \<open>
  \<open>found_early\<close> says that steps 1 and 2 set \<open>found_match\<close> for a video.
\<close>

definition found_early :: "scorer \<Rightarrow> (string \<times> string) list \<Rightarrow> (string \<rightharpoonup> string) \<Rightarrow> rat \<Rightarrow> string \<Rightarrow> bool" where
  "found_early scorer nfo_basenames rename_dict threshold video =
     (case rename_dict (stem video) of
        Some t \<Rightarrow> t \<in> set (keys nfo_basenames)
      | None \<Rightarrow> is_one_piece (stem video) \<and>
          process_extract scorer (stem video) (keys (op_nfo_choices_of nfo_basenames)) (Some threshold) default_limit \<noteq> [])"

text \<open>
  \<open>gated\<close> is the test of lines 364 to 366 on a video and an NFO; \<open>is_error\<close> tells
  the error lines of the log; \<open>place_triple\<close> is the inner loop body for one triple of
  the flattened batch \<open>triples_of\<close>; \<open>extends\<close> says that a filesystem keeps every
  file, with its content, and every directory of another.
\<close>

definition gated :: "string \<Rightarrow> string \<Rightarrow> bool" where
  "gated video nfo =
     (contains ''one piece'' (lower (basename video)) \<and>
      contains ''one piece yabai'' (lower nfo) \<and>
      \<not> contains ''yabai'' (lower (basename video)))"

fun is_error :: "event \<Rightarrow> bool" where
  "is_error (Warning_ignored video nfo) = False"
| "is_error (Info_placing video destination score) = False"
| "is_error (Error_hardlink source destination) = True"
| "is_error Error_fsutil = True"
| "is_error (Error_placing video destination) = True"

definition place_triple ::
  "env \<Rightarrow> string \<Rightarrow> string \<Rightarrow> pstate \<Rightarrow> string \<times> string \<times> rat \<Rightarrow> pstate" where
  "place_triple e placement_mode media_root st triple =
     (case triple of (video, option) \<Rightarrow>
        place_one e placement_mode media_root video
          (contains ''one piece'' (lower (basename video)))
          (contains ''yabai'' (lower (basename video))) st option)"

definition triples_of ::
  "(string \<times> (string \<times> rat) list) list \<Rightarrow> (string \<times> string \<times> rat) list" where
  "triples_of all_matches =
     concat (map (\<lambda>(video, nfo_options). map (Pair video) nfo_options) all_matches)"

definition extends :: "fs \<Rightarrow> fs \<Rightarrow> bool" where
  "extends f f' = (files f \<subseteq>\<^sub>m files f' \<and> dirs f \<subseteq> dirs f')"

text \<open>
  The views of the result of \<open>find_matches\<close>. A video is assigned by the rename
  dictionary when it has a standard match with the score 101, by the standard match when
  it has one with another score, by the fan-out when it is a key of the One Piece
  matches, and unmatched when it is listed there. \<open>outcome_of\<close> is what the loop body
  adds for a video to empty results, \<open>merge\<close> adds such an outcome to any results, and
  \<open>shape\<close> says what an outcome looks like.
\<close>

definition merge :: "mstate \<Rightarrow> mstate \<Rightarrow> mstate" where
  "merge st d =
     \<lparr>standard_matches = standard_matches st @ standard_matches d,
      unmatched = unmatched st @ unmatched d,
      one_piece_matches =
        foldl (\<lambda>m (video, dests). dict_set m video dests) (one_piece_matches st)
          (one_piece_matches d)\<rparr>"

definition outcome_of ::
  "scorer \<Rightarrow> (string \<times> string) list \<Rightarrow> (string \<rightharpoonup> string) \<Rightarrow> rat \<Rightarrow> string \<Rightarrow> mstate" where
  "outcome_of scorer nfo_basenames rename_dict threshold video =
     (case match_video scorer nfo_basenames rename_dict threshold mstate_init video of
        Inl e \<Rightarrow> mstate_init
      | Inr d \<Rightarrow> d)"

definition via_override :: "mstate \<Rightarrow> string \<Rightarrow> bool" where
  "via_override r video = (\<exists>nfo. (video, nfo, override_score) \<in> set (standard_matches r))"

definition via_standard :: "mstate \<Rightarrow> string \<Rightarrow> bool" where
  "via_standard r video =
     (\<exists>nfo score. (video, nfo, score) \<in> set (standard_matches r) \<and> score \<noteq> override_score)"

definition via_fan_out :: "mstate \<Rightarrow> string \<Rightarrow> bool" where
  "via_fan_out r video = (video \<in> set (keys (one_piece_matches r)))"

definition is_unmatched :: "mstate \<Rightarrow> string \<Rightarrow> bool" where
  "is_unmatched r video = (video \<in> set (keys (unmatched r)))"

definition count_true :: "bool list \<Rightarrow> nat" where
  "count_true bs = length (filter (\<lambda>b. b) bs)"

definition shape :: "rat \<Rightarrow> string \<Rightarrow> mstate \<Rightarrow> bool" where
  "shape T video d =
     ((\<exists>nfo score. (score = override_score \<or> T \<le> score) \<and>
          d = \<lparr>standard_matches = [(video, nfo, score)], unmatched = [],
                one_piece_matches = []\<rparr>) \<or>
      (\<exists>suggestions. d = \<lparr>standard_matches = [], unmatched = [(video, suggestions)],
                            one_piece_matches = []\<rparr>) \<or>
      (\<exists>dests. (\<forall>(nfo, score) \<in> set dests. T \<le> score) \<and>
          d = \<lparr>standard_matches = [], unmatched = [],
                one_piece_matches = [(video, dests)]\<rparr>))"

text \<open>
  \<open>passes\<close> is the test of \<open>score_cutoff\<close> on one score; \<open>same_effect\<close> relates two
  states of the placer that differ in the log only.
\<close>

definition passes :: "rat option \<Rightarrow> rat \<Rightarrow> bool" where
  "passes score_cutoff s = (case score_cutoff of None \<Rightarrow> True | Some t \<Rightarrow> t \<le> s)"

definition same_effect :: "pstate \<Rightarrow> pstate \<Rightarrow> bool" where
  "same_effect st st' =
     (filesystem st = filesystem st' \<and> placed_files st = placed_files st' \<and>
      updated_series st = updated_series st')"

section \<open>Properties of the matcher\<close>

subsection \<open>Dictionaries and the fuzzy search\<close>

lemmas path_defs = stem_def splitext_def basename_def dirname_def join_def sep_def extsep_def

lemma dict_get_in_keys: "k \<in> set (keys d) \<Longrightarrow> \<exists>v. dict_get d k = Inr v \<and> (k, v) \<in> set d"
  unfolding dict_get_def keys_def
  by (cases "map_of d k") (auto simp: map_of_eq_None_iff dest: map_of_SomeD)

lemma keys_dict_set: "set (keys (dict_set d k v)) = insert k (set (keys d))"
  by (induction d k v rule: dict_set.induct) (auto simp: keys_def)

lemma scored_hit: "(c, s, i) \<in> set (scored scorer q cs) \<Longrightarrow> c \<in> set cs \<and> s = scorer q c"
  unfolding scored_def by (auto dest: set_zip_leftD)

lemma process_extract_hit:
  "(c, s, i) \<in> set (process_extract scorer q cs co n)
     \<Longrightarrow> c \<in> set cs \<and> s = scorer q c \<and> (\<forall>t. co = Some t \<longrightarrow> t \<le> s)"
  unfolding process_extract_def
  by (auto dest!: in_set_takeD scored_hit)

lemma extractOne_fold_hit:
  "foldl (\<lambda>result (c, s, i).
              case result of
                None \<Rightarrow> Some (c, s, i)
              | Some (c', s', i') \<Rightarrow> if s' < s then Some (c, s, i) else result) r hs = Some h
   \<Longrightarrow> h \<in> set hs \<or> r = Some h"
  by (induction hs arbitrary: r) (auto split: option.splits if_splits prod.splits)

lemma process_extractOne_hit:
  "process_extractOne scorer q cs = Some (c, s, i) \<Longrightarrow> c \<in> set cs \<and> s = scorer q c"
  unfolding process_extractOne_def
  by (auto dest!: extractOne_fold_hit scored_hit)

lemma destinations_of_total:
  "\<forall>h \<in> set hs. fst h \<in> set (keys d) \<Longrightarrow> \<exists>ds. destinations_of d hs = Inr ds \<and> map snd ds = map (\<lambda>h. fst (snd h)) hs"
proof (induction hs)
  case Nil
  then show ?case by simp
next
  case (Cons h hs)
  obtain c s i where h: "h = (c, s, i)" by (cases h) auto
  from Cons.prems h obtain v where "dict_get d c = Inr v"
    using dict_get_in_keys[of c d] by auto
  moreover from Cons obtain ds where "destinations_of d hs = Inr ds" "map snd ds = map (\<lambda>h. fst (snd h)) hs" by auto
  ultimately show ?case using h by simp
qed

lemma op_hits_keys:
  "\<forall>h \<in> set (process_extract scorer q (keys d) co n). fst h \<in> set (keys d)"
proof
  fix h assume h: "h \<in> set (process_extract scorer q (keys d) co n)"
  obtain c s i where "h = (c, s, i)" by (cases h) auto
  with h show "fst h \<in> set (keys d)" using process_extract_hit[of c s i scorer q "keys d" co n] by simp
qed

subsection \<open>The steps of the loop body\<close>

lemma rename_or_one_piece_cases:
  "(\<exists>t nfo. rename_dict (stem video) = Some t \<and> dict_get nfos t = Inr nfo \<and>
      rename_or_one_piece scorer nfos rename_dict T st video =
        Inr (st\<lparr>standard_matches := standard_matches st @ [(video, nfo, override_score)]\<rparr>, True))
   \<or> (\<exists>dests. rename_dict (stem video) = None \<and> is_one_piece (stem video) \<and>
        process_extract scorer (stem video) (keys (op_nfo_choices_of nfos)) (Some T) default_limit \<noteq> [] \<and>
        destinations_of (op_nfo_choices_of nfos)
          (process_extract scorer (stem video) (keys (op_nfo_choices_of nfos)) (Some T) default_limit) = Inr dests \<and>
        rename_or_one_piece scorer nfos rename_dict T st video =
          Inr (st\<lparr>one_piece_matches := dict_set (one_piece_matches st) video dests\<rparr>, True))
   \<or> (\<not> found_early scorer nfos rename_dict T video \<and>
        rename_or_one_piece scorer nfos rename_dict T st video = Inr (st, False))"
proof (cases "rename_dict (stem video)")
  case (Some t)
  show ?thesis
  proof (cases "t \<in> set (keys nfos)")
    case True
    then obtain nfo where nfo: "dict_get nfos t = Inr nfo"
      using dict_get_in_keys[of t nfos] by blast
    have "rename_or_one_piece scorer nfos rename_dict T st video =
        Inr (st\<lparr>standard_matches := standard_matches st @ [(video, nfo, override_score)]\<rparr>, True)"
      using Some True nfo by (simp add: rename_or_one_piece_def)
    with Some nfo show ?thesis by blast
  next
    case False
    have "rename_or_one_piece scorer nfos rename_dict T st video = Inr (st, False)"
      using Some False by (simp add: rename_or_one_piece_def)
    moreover have "\<not> found_early scorer nfos rename_dict T video"
      using Some False by (simp add: found_early_def)
    ultimately show ?thesis by blast
  qed
next
  case None
  define pm where "pm = process_extract scorer (stem video) (keys (op_nfo_choices_of nfos)) (Some T) default_limit"
  have "\<forall>h \<in> set pm. fst h \<in> set (keys (op_nfo_choices_of nfos))"
    unfolding pm_def by (rule op_hits_keys)
  then obtain dests where d: "destinations_of (op_nfo_choices_of nfos) pm = Inr dests"
    using destinations_of_total[of pm "op_nfo_choices_of nfos"] by blast
  show ?thesis
  proof (cases "is_one_piece (stem video) \<and> pm \<noteq> []")
    case True
    have "rename_or_one_piece scorer nfos rename_dict T st video =
          Inr (st\<lparr>one_piece_matches := dict_set (one_piece_matches st) video dests\<rparr>, True)"
      using None True d unfolding pm_def by (simp add: rename_or_one_piece_def Let_def)
    with None True d show ?thesis unfolding pm_def by blast
  next
    case False
    have "rename_or_one_piece scorer nfos rename_dict T st video = Inr (st, False)"
      using None False unfolding pm_def by (auto simp add: rename_or_one_piece_def Let_def)
    moreover have "\<not> found_early scorer nfos rename_dict T video"
      using None False unfolding pm_def by (simp add: found_early_def)
    ultimately show ?thesis by blast
  qed
qed

lemma basic_match_cases:
  "(\<exists>c s i nfo. process_extractOne scorer (stem video) (keys (non_op_nfo_choices_of nfos)) = Some (c, s, i)
       \<and> T \<le> s \<and> dict_get (non_op_nfo_choices_of nfos) c = Inr nfo \<and>
       basic_match scorer nfos T st video =
         Inr (st\<lparr>standard_matches := standard_matches st @ [(video, nfo, s)]\<rparr>, True))
   \<or> ((\<forall>c s i. process_extractOne scorer (stem video) (keys (non_op_nfo_choices_of nfos)) = Some (c, s, i) \<longrightarrow> s < T)
       \<and> basic_match scorer nfos T st video = Inr (st, False))"
proof (cases "process_extractOne scorer (stem video) (keys (non_op_nfo_choices_of nfos))")
  case None
  then show ?thesis by (simp add: basic_match_def)
next
  case (Some h)
  obtain c s i where h: "h = (c, s, i)" by (cases h) auto
  from Some h have "c \<in> set (keys (non_op_nfo_choices_of nfos))"
    using process_extractOne_hit by blast
  then obtain nfo where nfo: "dict_get (non_op_nfo_choices_of nfos) c = Inr nfo"
    using dict_get_in_keys[of c "non_op_nfo_choices_of nfos"] by blast
  show ?thesis
  proof (cases "T \<le> s")
    case True
    have "basic_match scorer nfos T st video =
         Inr (st\<lparr>standard_matches := standard_matches st @ [(video, nfo, s)]\<rparr>, True)"
      using Some h nfo True by (simp add: basic_match_def)
    with Some h nfo True show ?thesis by blast
  next
    case False
    have "basic_match scorer nfos T st video = Inr (st, False)"
      using Some h False by (simp add: basic_match_def)
    with Some h False show ?thesis by simp
  qed
qed

lemma nfo_basenames_fold_stem:
  "\<forall>(k, v) \<in> set d. stem v = k \<Longrightarrow>
   \<forall>(k, v) \<in> set (foldl (\<lambda>d nfo. dict_set d (stem nfo) nfo) d nfo_files). stem v = k"
proof (induction nfo_files arbitrary: d)
  case Nil
  then show ?case by simp
next
  case (Cons nfo nfo_files)
  have "\<forall>(k, v) \<in> set (dict_set d (stem nfo) nfo). stem v = k"
    using Cons.prems by (induction d "stem nfo" nfo rule: dict_set.induct) auto
  then show ?case using Cons.IH by simp
qed

lemma nfo_basenames_stem: "(k, v) \<in> set (nfo_basenames_of nfo_files) \<Longrightarrow> stem v = k"
  using nfo_basenames_fold_stem[of "[]" nfo_files] unfolding nfo_basenames_of_def by auto

lemma scored_mem: "k \<in> set cs \<Longrightarrow> \<exists>i. (k, scorer q k, i) \<in> set (scored scorer q cs)"
proof -
  assume "k \<in> set cs"
  then obtain i where i: "i < length cs" "cs ! i = k" by (auto simp: in_set_conv_nth)
  then have "(k, i) \<in> set (zip cs [0 ..< length cs])"
    by (auto simp: set_zip)
  then have "(\<lambda>(c, i). (c, scorer q c, i)) (k, i) \<in> set (scored scorer q cs)"
    unfolding scored_def by (simp only: set_map) (rule imageI)
  then show ?thesis by auto
qed

lemma length_scored: "length (scored scorer q cs) = length cs"
  by (simp add: scored_def)

lemma process_extract_complete:
  assumes "k \<in> set cs" and "\<And>t. co = Some t \<Longrightarrow> t \<le> scorer q k" and "length cs \<le> n"
  shows "\<exists>i. (k, scorer q k, i) \<in> set (process_extract scorer q cs co n)"
proof -
  let ?P = "\<lambda>(c, s, i). case co of None \<Rightarrow> True | Some t \<Rightarrow> t \<le> (s :: rat)"
  let ?xs = "sort_key (\<lambda>(c, s, i). - s) (filter ?P (scored scorer q cs))"
  obtain i where i: "(k, scorer q k, i) \<in> set (scored scorer q cs)"
    using scored_mem[OF assms(1)] by blast
  have p: "?P (k, scorer q k, i)" using assms(2) by (cases co) simp_all
  have "length ?xs \<le> length (scored scorer q cs)" by simp
  then have "length ?xs \<le> n" using assms(3) length_scored[of scorer q cs] by simp
  then have "take n ?xs = ?xs" by simp
  then have "set (process_extract scorer q cs co n) = set (filter ?P (scored scorer q cs))"
    unfolding process_extract_def by simp
  with i p show ?thesis by auto
qed

lemma process_extract_length: "length (process_extract scorer q cs co n) \<le> n"
  by (simp add: process_extract_def)

lemma destinations_of_mem:
  "destinations_of d hs = Inr ds \<Longrightarrow> (c, s, i) \<in> set hs \<Longrightarrow>
   \<exists>nfo. dict_get d c = Inr nfo \<and> (nfo, s) \<in> set ds"
proof (induction hs arbitrary: ds)
  case Nil
  then show ?case by simp
next
  case (Cons h hs)
  obtain c' s' i' where h: "h = (c', s', i')" by (cases h) auto
  from Cons.prems(1) h obtain nfo' rest where
    r: "dict_get d c' = Inr nfo'" "destinations_of d hs = Inr rest" "ds = (nfo', s') # rest"
    by (auto split: sum.splits)
  show ?case
  proof (cases "(c, s, i) = h")
    case True
    with h r show ?thesis by auto
  next
    case False
    with Cons.prems(2) have "(c, s, i) \<in> set hs" by simp
    from Cons.IH[OF r(2) this] r(3) show ?thesis by auto
  qed
qed

lemma destinations_of_source:
  "destinations_of d hs = Inr ds \<Longrightarrow> (nfo, s) \<in> set ds \<Longrightarrow>
   \<exists>c i. (c, s, i) \<in> set hs \<and> dict_get d c = Inr nfo"
proof (induction hs arbitrary: ds)
  case Nil
  then show ?case by simp
next
  case (Cons h hs)
  obtain c' s' i' where h: "h = (c', s', i')" by (cases h) auto
  from Cons.prems(1) h obtain nfo' rest where
    r: "dict_get d c' = Inr nfo'" "destinations_of d hs = Inr rest" "ds = (nfo', s') # rest"
    by (auto split: sum.splits)
  show ?case
  proof (cases "(nfo, s) = (nfo', s')")
    case True
    with h r show ?thesis by auto
  next
    case False
    with Cons.prems(2) r(3) have "(nfo, s) \<in> set rest" by auto
    from Cons.IH[OF r(2) this] h show ?thesis by auto
  qed
qed

subsection \<open>The outcome of one video and of all\<close>

lemma merge_standard:
  "merge st \<lparr>standard_matches = [x], unmatched = [], one_piece_matches = []\<rparr> =
     st\<lparr>standard_matches := standard_matches st @ [x]\<rparr>"
  by (simp add: merge_def)

lemma merge_unmatched:
  "merge st \<lparr>standard_matches = [], unmatched = [x], one_piece_matches = []\<rparr> =
     st\<lparr>unmatched := unmatched st @ [x]\<rparr>"
  by (simp add: merge_def)

lemma merge_fan_out:
  "merge st \<lparr>standard_matches = [], unmatched = [], one_piece_matches = [(video, dests)]\<rparr> =
     st\<lparr>one_piece_matches := dict_set (one_piece_matches st) video dests\<rparr>"
  by (simp add: merge_def)

lemma late_steps:
  assumes "\<And>st. rename_or_one_piece scorer nfos rename_dict T st video = Inr (st, False)"
  shows "\<exists>d. shape T video d \<and>
           (\<forall>st. match_video scorer nfos rename_dict T st video = Inr (merge st d))"
proof (cases "process_extractOne scorer (stem video) (keys (non_op_nfo_choices_of nfos))")
  case None
  let ?d = "\<lparr>standard_matches = [], unmatched = [(video, process_extract scorer (stem video) (keys nfos) None 5)],
                            one_piece_matches = []\<rparr>"
  have "\<And>st. basic_match scorer nfos T st video = Inr (st, False)"
    using None by (simp add: basic_match_def)
  then have "\<And>st. match_video scorer nfos rename_dict T st video = Inr (merge st ?d)"
    using assms by (simp add: match_video_def suggest_def merge_unmatched)
  moreover have "shape T video ?d" by (simp add: shape_def)
  ultimately show ?thesis by blast
next
  case (Some h)
  obtain c s i where h: "h = (c, s, i)" by (cases h) auto
  from Some h have "c \<in> set (keys (non_op_nfo_choices_of nfos))"
    using process_extractOne_hit by blast
  then obtain nfo where nfo: "dict_get (non_op_nfo_choices_of nfos) c = Inr nfo"
    using dict_get_in_keys[of c "non_op_nfo_choices_of nfos"] by blast
  show ?thesis
  proof (cases "T \<le> s")
    case True
    let ?d = "\<lparr>standard_matches = [(video, nfo, s)], unmatched = [], one_piece_matches = []\<rparr>"
    have "\<And>st. basic_match scorer nfos T st video =
         Inr (st\<lparr>standard_matches := standard_matches st @ [(video, nfo, s)]\<rparr>, True)"
      using Some h nfo True by (simp add: basic_match_def)
    then have "\<And>st. match_video scorer nfos rename_dict T st video = Inr (merge st ?d)"
      using assms by (simp add: match_video_def merge_standard)
    moreover have "shape T video ?d" using True by (simp add: shape_def)
    ultimately show ?thesis by blast
  next
    case False
    let ?d = "\<lparr>standard_matches = [], unmatched = [(video, process_extract scorer (stem video) (keys nfos) None 5)],
                            one_piece_matches = []\<rparr>"
    have "\<And>st. basic_match scorer nfos T st video = Inr (st, False)"
      using Some h False by (simp add: basic_match_def)
    then have "\<And>st. match_video scorer nfos rename_dict T st video = Inr (merge st ?d)"
      using assms by (simp add: match_video_def suggest_def merge_unmatched)
    moreover have "shape T video ?d" by (simp add: shape_def)
    ultimately show ?thesis by blast
  qed
qed

lemma match_video_merge:
  "\<exists>d. shape T video d \<and>
        (\<forall>st. match_video scorer nfos rename_dict T st video = Inr (merge st d))"
proof (cases "rename_dict (stem video)")
  case (Some t)
  show ?thesis
  proof (cases "t \<in> set (keys nfos)")
    case True
    then obtain nfo where nfo: "dict_get nfos t = Inr nfo"
      using dict_get_in_keys[of t nfos] by blast
    let ?d = "\<lparr>standard_matches = [(video, nfo, override_score)], unmatched = [], one_piece_matches = []\<rparr>"
    have "\<And>st. rename_or_one_piece scorer nfos rename_dict T st video =
        Inr (st\<lparr>standard_matches := standard_matches st @ [(video, nfo, override_score)]\<rparr>, True)"
      using Some True nfo by (simp add: rename_or_one_piece_def)
    then have "\<And>st. match_video scorer nfos rename_dict T st video = Inr (merge st ?d)"
      by (simp add: match_video_def merge_standard)
    moreover have "shape T video ?d" by (simp add: shape_def)
    ultimately show ?thesis by blast
  next
    case False
    have "\<And>st. rename_or_one_piece scorer nfos rename_dict T st video = Inr (st, False)"
      using Some False by (simp add: rename_or_one_piece_def)
    then show ?thesis by (rule late_steps)
  qed
next
  case None
  define pm where "pm = process_extract scorer (stem video) (keys (op_nfo_choices_of nfos)) (Some T) default_limit"
  have "\<forall>h \<in> set pm. fst h \<in> set (keys (op_nfo_choices_of nfos))"
    unfolding pm_def by (rule op_hits_keys)
  then obtain dests where d: "destinations_of (op_nfo_choices_of nfos) pm = Inr dests"
    using destinations_of_total[of pm "op_nfo_choices_of nfos"] by blast
  show ?thesis
  proof (cases "is_one_piece (stem video) \<and> pm \<noteq> []")
    case True
    let ?d = "\<lparr>standard_matches = [], unmatched = [], one_piece_matches = [(video, dests)]\<rparr>"
    have "\<And>st. rename_or_one_piece scorer nfos rename_dict T st video =
          Inr (st\<lparr>one_piece_matches := dict_set (one_piece_matches st) video dests\<rparr>, True)"
      using None True d unfolding pm_def by (simp add: rename_or_one_piece_def Let_def)
    then have "\<And>st. match_video scorer nfos rename_dict T st video = Inr (merge st ?d)"
      by (simp add: match_video_def merge_fan_out)
    moreover have "\<forall>(nfo, score) \<in> set dests. T \<le> score"
    proof (clarify)
      fix nfo score assume "(nfo, score) \<in> set dests"
      then obtain c i where "(c, score, i) \<in> set pm"
        using destinations_of_source[OF d] by blast
      then show "T \<le> score"
        unfolding pm_def using process_extract_hit[of c score i scorer "stem video" _ "Some T" default_limit]
        by simp
    qed
    then have "shape T video ?d" by (simp add: shape_def)
    ultimately show ?thesis by blast
  next
    case False
    have "\<And>st. rename_or_one_piece scorer nfos rename_dict T st video = Inr (st, False)"
      using None False unfolding pm_def by (auto simp add: rename_or_one_piece_def Let_def)
    then show ?thesis by (rule late_steps)
  qed
qed

lemma shape_merge_init: "shape T video d \<Longrightarrow> merge mstate_init d = d"
  unfolding shape_def by (auto simp: merge_def mstate_init_def)

lemma outcome_of_merge:
  "shape T video (outcome_of scorer nfos rename_dict T video) \<and>
   (\<forall>st. match_video scorer nfos rename_dict T st video =
           Inr (merge st (outcome_of scorer nfos rename_dict T video)))"
proof -
  obtain d where d: "shape T video d"
    "\<And>st. match_video scorer nfos rename_dict T st video = Inr (merge st d)"
    using match_video_merge[where video = video and scorer = scorer and nfos = nfos and rename_dict = rename_dict and T = T] by blast
  have "outcome_of scorer nfos rename_dict T video = d"
    unfolding outcome_of_def using d(2)[of mstate_init] shape_merge_init[OF d(1)] by simp
  with d show ?thesis by simp
qed

lemma match_videos_merge:
  "match_videos scorer nfos rename_dict T st videos =
     Inr (foldl merge st (map (outcome_of scorer nfos rename_dict T) videos))"
proof (induction videos arbitrary: st)
  case Nil
  then show ?case by simp
next
  case (Cons video videos)
  have "match_video scorer nfos rename_dict T st video =
           Inr (merge st (outcome_of scorer nfos rename_dict T video))"
    using outcome_of_merge by blast
  then show ?case using Cons.IH by simp
qed

lemma keys_fold_dict_set:
  "set (keys (foldl (\<lambda>m (video, dests). dict_set m video dests) m0 xs)) =
     set (keys m0) \<union> set (keys xs)"
proof (induction xs arbitrary: m0)
  case Nil
  then show ?case by (simp add: keys_def)
next
  case (Cons x xs)
  obtain v d where x: "x = (v, d)" by (cases x)
  have "set (keys (x # xs)) = insert v (set (keys xs))" by (simp add: x keys_def)
  then show ?case using Cons.IH[of "dict_set m0 v d"] keys_dict_set[of m0 v d] by (simp add: x)
qed

lemma fold_merge_views:
  "standard_matches (foldl merge st ds) = standard_matches st @ concat (map standard_matches ds) \<and>
   unmatched (foldl merge st ds) = unmatched st @ concat (map unmatched ds) \<and>
   set (keys (one_piece_matches (foldl merge st ds))) =
     set (keys (one_piece_matches st)) \<union> (\<Union>d \<in> set ds. set (keys (one_piece_matches d)))"
proof (induction ds arbitrary: st)
  case Nil
  then show ?case by simp
next
  case (Cons d ds)
  have a: "standard_matches (merge st d) = standard_matches st @ standard_matches d"
    and b: "unmatched (merge st d) = unmatched st @ unmatched d"
    and c: "set (keys (one_piece_matches (merge st d))) =
            set (keys (one_piece_matches st)) \<union> set (keys (one_piece_matches d))"
    by (simp_all add: merge_def keys_fold_dict_set)
  show ?case using Cons.IH[of "merge st d"] a b c by auto
qed

lemma shape_first:
  assumes "shape T w d"
  shows "((v, n, s) \<in> set (standard_matches d) \<longrightarrow> v = w) \<and>
         (v \<in> set (keys (unmatched d)) \<longrightarrow> v = w) \<and>
         (v \<in> set (keys (one_piece_matches d)) \<longrightarrow> v = w)"
  using assms unfolding shape_def by (auto simp: keys_def)

lemma shape_count:
  assumes "shape T v d"
  shows "count_true [via_override d v, via_fan_out d v, via_standard d v, is_unmatched d v] = 1"
proof -
  from assms consider
    (std) nfo score where "d = \<lparr>standard_matches = [(v, nfo, score)], unmatched = [],
                         one_piece_matches = []\<rparr>"
  | (um) suggestions where "d = \<lparr>standard_matches = [], unmatched = [(v, suggestions)],
                            one_piece_matches = []\<rparr>"
  | (op) dests where "d = \<lparr>standard_matches = [], unmatched = [],
                      one_piece_matches = [(v, dests)]\<rparr>"
    unfolding shape_def by blast
  then show ?thesis
  proof cases
    case std
    then show ?thesis
      by (cases "score = override_score")
        (simp_all add: count_true_def via_override_def via_fan_out_def via_standard_def
          is_unmatched_def keys_def)
  next
    case um
    then show ?thesis
      by (simp add: count_true_def via_override_def via_fan_out_def via_standard_def
          is_unmatched_def keys_def)
  next
    case op
    then show ?thesis
      by (simp add: count_true_def via_override_def via_fan_out_def via_standard_def
          is_unmatched_def keys_def)
  qed
qed

lemma result_views:
  assumes "\<And>w. shape T w (D w)"
  shows "via_override (foldl merge mstate_init (map D videos)) v = (v \<in> set videos \<and> via_override (D v) v)"
    and "via_standard (foldl merge mstate_init (map D videos)) v = (v \<in> set videos \<and> via_standard (D v) v)"
    and "via_fan_out (foldl merge mstate_init (map D videos)) v = (v \<in> set videos \<and> via_fan_out (D v) v)"
    and "is_unmatched (foldl merge mstate_init (map D videos)) v = (v \<in> set videos \<and> is_unmatched (D v) v)"
proof -
  let ?r = "foldl merge mstate_init (map D videos)"
  note views = fold_merge_views[of mstate_init "map D videos"]
  have s: "set (standard_matches ?r) = (\<Union>w \<in> set videos. set (standard_matches (D w)))"
    using views by (simp add: mstate_init_def)
  have u: "set (keys (unmatched ?r)) = (\<Union>w \<in> set videos. set (keys (unmatched (D w))))"
    using views by (simp add: mstate_init_def keys_def image_UN)
  have f: "set (keys (one_piece_matches ?r)) = (\<Union>w \<in> set videos. set (keys (one_piece_matches (D w))))"
    using views by (simp add: mstate_init_def keys_def)
  have s': "\<And>n sc. ((v, n, sc) \<in> set (standard_matches ?r)) = (v \<in> set videos \<and> (v, n, sc) \<in> set (standard_matches (D v)))"
    unfolding s using shape_first[OF assms] by blast
  show "via_override ?r v = (v \<in> set videos \<and> via_override (D v) v)"
    unfolding via_override_def s' by blast
  show "via_standard ?r v = (v \<in> set videos \<and> via_standard (D v) v)"
    unfolding via_standard_def s' by blast
  show "via_fan_out ?r v = (v \<in> set videos \<and> via_fan_out (D v) v)"
    unfolding via_fan_out_def f using shape_first[OF assms] by blast
  show "is_unmatched ?r v = (v \<in> set videos \<and> is_unmatched (D v) v)"
    unfolding is_unmatched_def u using shape_first[OF assms] by blast
qed

lemma not_found_early:
  assumes "\<not> found_early scorer nfos rename_dict T video"
  shows "rename_or_one_piece scorer nfos rename_dict T st video = Inr (st, False)"
proof (cases "rename_dict (stem video)")
  case None
  with assms show ?thesis
    by (auto simp add: found_early_def rename_or_one_piece_def Let_def)
next
  case (Some t)
  with assms show ?thesis
    by (simp add: found_early_def rename_or_one_piece_def)
qed

lemma standard_assigns:
  assumes "\<not> found_early scorer nfos rename_dict T video"
    and "process_extractOne scorer (stem video) (keys (non_op_nfo_choices_of nfos)) = Some (k, s, i)"
    and "T \<le> s"
  shows "\<exists>nfo. dict_get (non_op_nfo_choices_of nfos) k = Inr nfo \<and>
           match_video scorer nfos rename_dict T st video =
             Inr (st\<lparr>standard_matches := standard_matches st @ [(video, nfo, s)]\<rparr>)"
proof -
  from basic_match_cases[of scorer video nfos T st] assms(2,3)
  obtain nfo where n: "dict_get (non_op_nfo_choices_of nfos) k = Inr nfo"
    and b: "basic_match scorer nfos T st video =
         Inr (st\<lparr>standard_matches := standard_matches st @ [(video, nfo, s)]\<rparr>, True)"
    by auto
  have "match_video scorer nfos rename_dict T st video =
             Inr (st\<lparr>standard_matches := standard_matches st @ [(video, nfo, s)]\<rparr>)"
    using not_found_early[OF assms(1), of st] b by (simp add: match_video_def)
  with n show ?thesis by blast
qed

lemma unmatched_suggestions:
  assumes "\<not> found_early scorer nfos rename_dict T video"
    and "\<forall>c s i. process_extractOne scorer (stem video) (keys (non_op_nfo_choices_of nfos)) = Some (c, s, i) \<longrightarrow> s < T"
  shows "match_video scorer nfos rename_dict T st video =
           Inr (st\<lparr>unmatched := unmatched st @
                  [(video, process_extract scorer (stem video) (keys nfos) None 5)]\<rparr>)"
proof -
  from basic_match_cases[of scorer video nfos T st] assms(2)
  have b: "basic_match scorer nfos T st video = Inr (st, False)"
    by force
  show ?thesis
    using not_found_early[OF assms(1), of st] b by (simp add: match_video_def suggest_def)
qed

lemma set_dict_set: "set (dict_set m k v) \<subseteq> insert (k, v) (set m)"
  by (induction m k v rule: dict_set.induct) auto

lemma set_fold_dict_set:
  "set (foldl (\<lambda>m (video, dests). dict_set m video dests) m0 xs) \<subseteq> set m0 \<union> set xs"
proof (induction xs arbitrary: m0)
  case Nil
  then show ?case by simp
next
  case (Cons x xs)
  obtain v d where x: "x = (v, d)" by (cases x)
  show ?case using Cons.IH[of "dict_set m0 v d"] set_dict_set[of m0 v d] by (auto simp: x)
qed

lemma fold_merge_fan_out:
  "set (one_piece_matches (foldl merge st ds)) \<subseteq>
     set (one_piece_matches st) \<union> (\<Union>d \<in> set ds. set (one_piece_matches d))"
proof (induction ds arbitrary: st)
  case Nil
  then show ?case by simp
next
  case (Cons d ds)
  have "set (one_piece_matches (merge st d)) \<subseteq> set (one_piece_matches st) \<union> set (one_piece_matches d)"
    by (simp add: merge_def set_fold_dict_set)
  then show ?case using Cons.IH[of "merge st d"] by auto
qed

lemma shape_bounds:
  assumes "shape T w d"
  shows "(\<forall>(v, nfo, s) \<in> set (standard_matches d). s = override_score \<or> T \<le> s) \<and>
         (\<forall>(v, dests) \<in> set (one_piece_matches d). \<forall>(nfo, s) \<in> set dests. T \<le> s)"
  using assms unfolding shape_def by auto

lemma result_bounds:
  assumes "find_matches scorer video_files nfo_files rename_dict T = Inr r"
  shows "(\<forall>(v, nfo, s) \<in> set (standard_matches r). s = override_score \<or> T \<le> s) \<and>
         (\<forall>(v, dests) \<in> set (one_piece_matches r). \<forall>(nfo, s) \<in> set dests. T \<le> s)"
proof -
  let ?D = "outcome_of scorer (nfo_basenames_of nfo_files) rename_dict T"
  have r: "r = foldl merge mstate_init (map ?D video_files)"
    using assms match_videos_merge[of scorer "nfo_basenames_of nfo_files" rename_dict T mstate_init video_files]
    unfolding find_matches_def by simp
  have sh: "\<And>w. shape T w (?D w)" using outcome_of_merge by blast
  have s: "set (standard_matches r) = (\<Union>w \<in> set video_files. set (standard_matches (?D w)))"
    unfolding r using fold_merge_views[of mstate_init "map ?D video_files"] by (simp add: mstate_init_def)
  have f: "set (one_piece_matches r) \<subseteq> (\<Union>w \<in> set video_files. set (one_piece_matches (?D w)))"
    unfolding r using fold_merge_fan_out[of mstate_init "map ?D video_files"] by (simp add: mstate_init_def)
  have "\<forall>(v, nfo, s) \<in> set (standard_matches r). s = override_score \<or> T \<le> s"
    unfolding s using shape_bounds[OF sh] by blast
  moreover have "\<forall>(v, dests) \<in> set (one_piece_matches r). \<forall>(nfo, s) \<in> set dests. T \<le> s"
  proof (clarify)
    fix v dests nfo s
    assume "(v, dests) \<in> set (one_piece_matches r)" "(nfo, s) \<in> set dests"
    then obtain w where "(v, dests) \<in> set (one_piece_matches (?D w))" using f by blast
    with shape_bounds[OF sh, of w] \<open>(nfo, s) \<in> set dests\<close> show "T \<le> s" by blast
  qed
  ultimately show ?thesis by blast
qed

lemma result_entries:
  assumes "\<And>w. shape T w (D w)"
  shows "((v, n, sc) \<in> set (standard_matches (foldl merge mstate_init (map D videos)))) =
           (v \<in> set videos \<and> (v, n, sc) \<in> set (standard_matches (D v)))"
proof -
  let ?r = "foldl merge mstate_init (map D videos)"
  have s: "set (standard_matches ?r) = (\<Union>w \<in> set videos. set (standard_matches (D w)))"
    using fold_merge_views[of mstate_init "map D videos"] by (simp add: mstate_init_def)
  show ?thesis unfolding s using shape_first[OF assms] by blast
qed

subsection \<open>What the limit of the search leaves\<close>

lemma sorted_take_drop:
  assumes "sorted (map f xs)" and "x \<in> set (take n xs)" and "y \<in> set (drop n xs)"
  shows "f x \<le> f y"
proof -
  have "sorted (map f (take n xs) @ map f (drop n xs))"
    using assms(1) by (simp only: map_append[symmetric] append_take_drop_id)
  then have "\<forall>a \<in> set (map f (take n xs)). \<forall>b \<in> set (map f (drop n xs)). a \<le> b"
    by (simp only: sorted_append) simp
  then show ?thesis using assms(2,3) by simp
qed

lemma length_filter_zip:
  "length is = length cs \<Longrightarrow>
   length (filter (\<lambda>(c, i). Q c) (zip cs is)) = length (filter Q cs)"
proof (induction cs arbitrary: "is")
  case Nil
  then show ?case by simp
next
  case (Cons c cs)
  then obtain j js where "is = j # js" by (cases "is") auto
  with Cons show ?case by simp
qed

lemma length_filter_scored:
  "length (filter (\<lambda>(c, s, i). P s) (scored scorer q cs)) =
     length (filter (\<lambda>c. P (scorer q c)) cs)"
proof -
  have "filter (\<lambda>(c, s, i). P s) (scored scorer q cs) =
        map (\<lambda>(c, i). (c, scorer q c, i))
          (filter (\<lambda>(c, i). P (scorer q c)) (zip cs [0 ..< length cs]))"
    unfolding scored_def by (simp add: filter_map comp_def case_prod_unfold)
  then show ?thesis using length_filter_zip[of "[0 ..< length cs]" cs "\<lambda>c. P (scorer q c)"] by simp
qed

lemma process_extract_eligible:
  assumes "k \<in> set cs" and "passes co (scorer q k)"
  shows "(\<exists>i. (k, scorer q k, i) \<in> set (process_extract scorer q cs co n)) \<or>
         (length (process_extract scorer q cs co n) = n \<and>
          (\<forall>h \<in> set (process_extract scorer q cs co n). scorer q k \<le> fst (snd h)))"
proof -
  let ?key = "\<lambda>(c, s, i). - (s :: rat)"
  let ?P = "\<lambda>(c, s, i). case co of None \<Rightarrow> True | Some t \<Rightarrow> t \<le> (s :: rat)"
  define xs where "xs = sort_key ?key (filter ?P (scored scorer q cs))"
  have pe: "process_extract scorer q cs co n = take n xs"
    unfolding process_extract_def xs_def ..
  obtain i where i: "(k, scorer q k, i) \<in> set (scored scorer q cs)"
    using scored_mem[OF assms(1)] by blast
  have "?P (k, scorer q k, i)" using assms(2) by (simp add: passes_def)
  with i have mem: "(k, scorer q k, i) \<in> set xs" unfolding xs_def by simp
  have srt: "sorted (map ?key xs)" unfolding xs_def by (rule sorted_sort_key)
  show ?thesis
  proof (cases "(k, scorer q k, i) \<in> set (take n xs)")
    case True
    then show ?thesis unfolding pe by blast
  next
    case False
    with mem have d: "(k, scorer q k, i) \<in> set (drop n xs)"
      using set_append[of "take n xs" "drop n xs"] by (simp only: append_take_drop_id) blast
    then have "drop n xs \<noteq> []" by auto
    then have len: "length (take n xs) = n" by simp
    have "\<forall>h \<in> set (take n xs). scorer q k \<le> fst (snd h)"
    proof
      fix h assume h: "h \<in> set (take n xs)"
      from sorted_take_drop[OF srt h d] show "scorer q k \<le> fst (snd h)"
        by (cases h) simp
    qed
    with len show ?thesis unfolding pe by blast
  qed
qed

lemma process_extract_survivors:
  assumes "k \<in> set cs" and "passes co (scorer q k)"
    and "length (filter (\<lambda>c. passes co (scorer q c)) cs) \<le> n"
  shows "\<exists>i. (k, scorer q k, i) \<in> set (process_extract scorer q cs co n)"
proof -
  let ?P = "\<lambda>(c, s, i). case co of None \<Rightarrow> True | Some t \<Rightarrow> t \<le> (s :: rat)"
  let ?xs = "sort_key (\<lambda>(c, s, i). - s) (filter ?P (scored scorer q cs))"
  obtain i where i: "(k, scorer q k, i) \<in> set (scored scorer q cs)"
    using scored_mem[OF assms(1)] by blast
  have p: "?P (k, scorer q k, i)" using assms(2) by (simp add: passes_def)
  have "length (filter ?P (scored scorer q cs)) = length (filter (\<lambda>c. passes co (scorer q c)) cs)"
    using length_filter_scored[of "passes co" scorer q cs] by (simp add: passes_def)
  then have "length ?xs \<le> n" using assms(3) by simp
  then have "take n ?xs = ?xs" by simp
  then have "set (process_extract scorer q cs co n) = set (filter ?P (scored scorer q cs))"
    unfolding process_extract_def by simp
  with i p show ?thesis by auto
qed

lemma destinations_of_length: "destinations_of d hs = Inr ds \<Longrightarrow> length ds = length hs"
proof (induction hs arbitrary: ds)
  case Nil
  then show ?case by simp
next
  case (Cons h hs)
  obtain c s i where h: "h = (c, s, i)" by (cases h) auto
  from Cons.prems h obtain nfo rest where
    r: "destinations_of d hs = Inr rest" "ds = (nfo, s) # rest"
    by (auto split: sum.splits)
  with Cons.IH[OF r(1)] show ?case by simp
qed

lemma fan_out_eligible:
  assumes "rename_dict (stem video) = None"
    and "is_one_piece (stem video)"
    and "k \<in> set (keys (op_nfo_choices_of nfo_basenames))"
    and "threshold \<le> scorer (stem video) k"
  shows "\<exists>dests nfo.
           match_video scorer nfo_basenames rename_dict threshold st video =
             Inr (st\<lparr>one_piece_matches := dict_set (one_piece_matches st) video dests\<rparr>) \<and>
           dict_get (op_nfo_choices_of nfo_basenames) k = Inr nfo \<and>
           ((nfo, scorer (stem video) k) \<in> set dests \<or>
            length dests = default_limit \<and>
            (\<forall>(other, score) \<in> set dests. scorer (stem video) k \<le> score)) \<and>
           (length (filter (\<lambda>c. threshold \<le> scorer (stem video) c)
                      (keys (op_nfo_choices_of nfo_basenames))) \<le> default_limit \<longrightarrow>
              (nfo, scorer (stem video) k) \<in> set dests)"
proof -
  let ?op = "op_nfo_choices_of nfo_basenames"
  let ?q = "stem video"
  define pm where "pm = process_extract scorer ?q (keys ?op) (Some threshold) default_limit"
  have pass: "passes (Some threshold) (scorer ?q k)" using assms(4) by (simp add: passes_def)
  have el: "(\<exists>i. (k, scorer ?q k, i) \<in> set pm) \<or>
         (length pm = default_limit \<and> (\<forall>h \<in> set pm. scorer ?q k \<le> fst (snd h)))"
    unfolding pm_def
    using process_extract_eligible[where k = k and cs = "keys ?op" and co = "Some threshold"
        and scorer = scorer and q = ?q and n = default_limit] assms(3) pass by blast
  have ne: "pm \<noteq> []"
  proof
    assume "pm = []"
    with el show False by (simp add: default_limit_def)
  qed
  have "\<forall>h \<in> set pm. fst h \<in> set (keys ?op)" unfolding pm_def by (rule op_hits_keys)
  then obtain dests where d: "destinations_of ?op pm = Inr dests"
    using destinations_of_total[of pm ?op] by blast
  have "rename_or_one_piece scorer nfo_basenames rename_dict threshold st video =
          Inr (st\<lparr>one_piece_matches := dict_set (one_piece_matches st) video dests\<rparr>, True)"
    using assms(1,2) ne d unfolding pm_def by (simp add: rename_or_one_piece_def Let_def)
  then have m: "match_video scorer nfo_basenames rename_dict threshold st video =
             Inr (st\<lparr>one_piece_matches := dict_set (one_piece_matches st) video dests\<rparr>)"
    by (simp add: match_video_def)
  obtain nfo where n: "dict_get ?op k = Inr nfo"
    using dict_get_in_keys[OF assms(3)] by blast
  have in_dests: "(nfo, scorer ?q k) \<in> set dests" if "(k, scorer ?q k, i) \<in> set pm" for i
    using destinations_of_mem[OF d that] n by auto
  have a: "(nfo, scorer ?q k) \<in> set dests \<or>
            length dests = default_limit \<and>
            (\<forall>(other, score) \<in> set dests. scorer ?q k \<le> score)"
  proof (cases "\<exists>i. (k, scorer ?q k, i) \<in> set pm")
    case True
    then show ?thesis using in_dests by blast
  next
    case False
    with el have l: "length pm = default_limit" and b: "\<forall>h \<in> set pm. scorer ?q k \<le> fst (snd h)"
      by blast+
    have "\<forall>(other, score) \<in> set dests. scorer ?q k \<le> score"
    proof (clarify)
      fix other score assume "(other, score) \<in> set dests"
      then obtain c i where "(c, score, i) \<in> set pm"
        using destinations_of_source[OF d] by blast
      with b show "scorer ?q k \<le> score" by force
    qed
    then show ?thesis using l destinations_of_length[OF d] by simp
  qed
  have b: "(nfo, scorer ?q k) \<in> set dests"
    if "length (filter (\<lambda>c. threshold \<le> scorer ?q c) (keys ?op)) \<le> default_limit"
  proof -
    have "length (filter (\<lambda>c. passes (Some threshold) (scorer ?q c)) (keys ?op)) \<le> default_limit"
      using that by (simp add: passes_def)
    from process_extract_survivors[where k = k and cs = "keys ?op" and co = "Some threshold"
        and scorer = scorer and q = ?q and n = default_limit] assms(3) pass this
    obtain i where "(k, scorer ?q k, i) \<in> set pm" unfolding pm_def by blast
    then show ?thesis by (rule in_dests)
  qed
  from m n a b show ?thesis by blast
qed

lemma startswith_append: "startswith xs sub \<Longrightarrow> startswith (xs @ ys) sub"
proof (induction xs arbitrary: sub)
  case Nil
  then show ?case by (cases ys) simp_all
next
  case (Cons x xs)
  then show ?case by (cases sub) simp_all
qed

lemma contains_append: "contains sub xs \<Longrightarrow> contains sub (xs @ ys)"
proof (induction xs)
  case Nil
  then show ?case by (cases ys) simp_all
next
  case (Cons x xs)
  have unfold: "contains sub ((x # xs) @ ys) =
      (startswith ((x # xs) @ ys) sub \<or> contains sub (xs @ ys))"
    by (simp only: append_Cons contains.simps)
  from Cons.prems have "startswith (x # xs) sub \<or> contains sub xs"
    by (simp only: contains.simps)
  then show ?case
  proof
    assume "startswith (x # xs) sub"
    then have "startswith ((x # xs) @ ys) sub" by (rule startswith_append)
    then show ?thesis by (simp only: unfold) simp
  next
    assume "contains sub xs"
    then have "contains sub (xs @ ys)" by (rule Cons.IH)
    then show ?thesis by (simp only: unfold) simp
  qed
qed

lemma splitext_prefix: "\<exists>ext. p = fst (splitext p) @ ext"
proof -
  define b where "b = basename p"
  define d where "d = rev (dropWhile (\<lambda>c. c \<noteq> sep) (rev p))"
  define dw where "dw = dropWhile (\<lambda>c. c \<noteq> extsep) (rev b)"
  define C where "C = (extsep \<in> set b \<and> (\<exists>c \<in> set (rev (tl dw)). c \<noteq> extsep))"
  have sp: "splitext p =
      (if extsep \<in> set b
       then (if (\<exists>c \<in> set (rev (tl dw)). c \<noteq> extsep)
             then (d @ rev (tl dw), extsep # rev (takeWhile (\<lambda>c. c \<noteq> extsep) (rev b)))
             else (p, []))
       else (p, []))"
    unfolding splitext_def Let_def b_def d_def dw_def ..
  show ?thesis
  proof (cases C)
    case False
    then have "splitext p = (p, [])" unfolding C_def sp by (simp only: split: if_split) blast
    then show ?thesis by simp
  next
    case True
    then have f: "fst (splitext p) = d @ rev (tl dw)"
      unfolding C_def sp by (simp only: if_True fst_conv)
    have p: "p = d @ b"
    proof -
      have "rev p = takeWhile (\<lambda>c. c \<noteq> sep) (rev p) @ dropWhile (\<lambda>c. c \<noteq> sep) (rev p)"
        by (simp only: takeWhile_dropWhile_id)
      then have "rev (rev p) = rev (takeWhile (\<lambda>c. c \<noteq> sep) (rev p) @ dropWhile (\<lambda>c. c \<noteq> sep) (rev p))"
        by (rule arg_cong)
      then show ?thesis unfolding b_def d_def basename_def by (simp only: rev_rev_ident rev_append)
    qed
    have b: "b = rev dw @ rev (takeWhile (\<lambda>c. c \<noteq> extsep) (rev b))"
    proof -
      have "rev b = takeWhile (\<lambda>c. c \<noteq> extsep) (rev b) @ dw"
        unfolding dw_def by (simp only: takeWhile_dropWhile_id)
      then have "rev (rev b) = rev (takeWhile (\<lambda>c. c \<noteq> extsep) (rev b) @ dw)" by (rule arg_cong)
      then show ?thesis by (simp only: rev_rev_ident rev_append)
    qed
    have "extsep \<in> set (rev b)" using True unfolding C_def by simp
    then have "\<not> (\<forall>c \<in> set (rev b). c \<noteq> extsep)" by blast
    then have "dw \<noteq> []"
      unfolding dw_def using dropWhile_eq_Nil_conv[of "\<lambda>c. c \<noteq> extsep" "rev b"] by blast
    then obtain x t where dw: "dw = x # t" by (cases dw) simp_all
    then have "rev dw = rev (tl dw) @ [x]" by simp
    with b have "b = rev (tl dw) @ ([x] @ rev (takeWhile (\<lambda>c. c \<noteq> extsep) (rev b)))"
      by (simp only: append_assoc)
    with p f have "p = fst (splitext p) @ ([x] @ rev (takeWhile (\<lambda>c. c \<noteq> extsep) (rev b)))"
      by (simp only: append_assoc)
    then show ?thesis by (rule exI)
  qed
qed

lemma one_piece_basename:
  assumes "is_one_piece (stem video)"
  shows "contains ''one piece'' (lower (basename video))"
proof -
  obtain ext where "basename video = stem video @ ext"
    unfolding stem_def using splitext_prefix[of "basename video"] by blast
  then have "lower (basename video) = lower (stem video) @ lower ext"
    by (simp add: lower_def)
  then show ?thesis using assms contains_append unfolding is_one_piece_def by simp
qed

section \<open>Properties of the placer\<close>

lemma place_one_gate:
  assumes "contains ''one piece yabai'' (lower nfo)"
  shows "place_one e m r video True False st (nfo, score) =
           st\<lparr>journal := journal st @ [Warning_ignored video nfo]\<rparr>"
  using assms by (simp add: place_one_def)

lemma place_video_triples:
  "place_video e m r st (video, opts) = foldl (place_triple e m r) st (map (Pair video) opts)"
  unfolding place_video_def
  by (induction opts arbitrary: st) (simp_all add: place_triple_def Let_def)

lemma place_loop_triples:
  "foldl (place_video e m r) st all_matches = foldl (place_triple e m r) st (triples_of all_matches)"
proof (induction all_matches arbitrary: st)
  case Nil
  then show ?case by (simp add: triples_of_def)
next
  case (Cons a all_matches)
  obtain video opts where a: "a = (video, opts)" by (cases a)
  show ?case using Cons.IH by (simp add: a triples_of_def place_video_triples)
qed

lemma place_triple_gated:
  "gated video nfo \<Longrightarrow>
   place_triple e m r st (video, nfo, score) = st\<lparr>journal := journal st @ [Warning_ignored video nfo]\<rparr>"
  by (simp add: place_triple_def place_one_def gated_def)

lemma place_triple_exists:
  "\<not> gated video nfo \<Longrightarrow> path_exists (filesystem st) (destination_of video nfo) \<Longrightarrow>
   place_triple e m r st (video, nfo, score) = st"
  by (simp add: place_triple_def place_one_def gated_def)

lemma dirname_unfold:
  "dirname p =
     (if \<exists>c \<in> set (dropWhile (\<lambda>c. c \<noteq> sep) (rev p)). c \<noteq> sep
      then rev (dropWhile (\<lambda>c. c = sep) (dropWhile (\<lambda>c. c \<noteq> sep) (rev p)))
      else rev (dropWhile (\<lambda>c. c \<noteq> sep) (rev p)))"
proof -
  have ne: "\<And>xs :: string. (\<exists>c \<in> set xs. c \<noteq> sep) \<Longrightarrow> xs \<noteq> []"
    by auto
  define h where "h = dropWhile (\<lambda>c. c \<noteq> sep) (rev p)"
  have "dirname p = (if rev h \<noteq> [] \<and> (\<exists>c \<in> set (rev h). c \<noteq> sep)
         then rev (dropWhile (\<lambda>c. c = sep) (rev (rev h))) else rev h)"
    unfolding dirname_def Let_def h_def ..
  also have "\<dots> = (if \<exists>c \<in> set h. c \<noteq> sep then rev (dropWhile (\<lambda>c. c = sep) h) else rev h)"
    using ne[of h] by auto
  finally show ?thesis unfolding h_def .
qed

lemma length_dirname: "length (dirname p) \<le> length p"
proof -
  have a: "length (dropWhile (\<lambda>c. c \<noteq> sep) (rev p)) \<le> length p"
    using length_dropWhile_le[of "\<lambda>c. c \<noteq> sep" "rev p"] by simp
  have b: "length (dropWhile (\<lambda>c. c = sep) (dropWhile (\<lambda>c. c \<noteq> sep) (rev p))) \<le> length (dropWhile (\<lambda>c. c \<noteq> sep) (rev p))"
    by (rule length_dropWhile_le)
  show ?thesis
  proof (cases "\<exists>c \<in> set (dropWhile (\<lambda>c. c \<noteq> sep) (rev p)). c \<noteq> sep")
    case True
    then have "dirname p = rev (dropWhile (\<lambda>c. c = sep) (dropWhile (\<lambda>c. c \<noteq> sep) (rev p)))"
      by (simp only: dirname_unfold if_True)
    then show ?thesis using a b by (simp only: length_rev)
  next
    case False
    then have "dirname p = rev (dropWhile (\<lambda>c. c \<noteq> sep) (rev p))"
      by (simp only: dirname_unfold if_False)
    then show ?thesis using a by (simp only: length_rev)
  qed
qed

lemma dirname_shorter:
  assumes "\<exists>c \<in> set (dirname p). c \<noteq> sep"
  shows "length (dirname p) < length p"
proof -
  define h where "h = dropWhile (\<lambda>c. c \<noteq> sep) (rev p)"
  have ne: "\<exists>c \<in> set h. c \<noteq> sep"
  proof (rule ccontr)
    assume n: "\<not> ?thesis"
    then have "dirname p = rev h" unfolding h_def by (simp only: dirname_unfold if_False)
    with assms n show False by (simp only: set_rev)
  qed
  then have hne: "h \<noteq> []" by auto
  then have "hd h = sep" unfolding h_def using hd_dropWhile[of "\<lambda>c. c \<noteq> sep" "rev p"] by simp
  with hne obtain t where t: "h = sep # t" by (cases h) simp_all
  have d: "dirname p = rev (dropWhile (\<lambda>c. c = sep) h)"
    using ne unfolding h_def by (simp only: dirname_unfold if_True)
  have "length (dropWhile (\<lambda>c. c = sep) t) \<le> length t"
    by (rule length_dropWhile_le)
  then have "length (dirname p) < length h" using d t by simp
  moreover have "length h \<le> length p" unfolding h_def using length_dropWhile_le[of "\<lambda>c. c \<noteq> sep" "rev p"] by simp
  ultimately show ?thesis by simp
qed

lemma ancestors_length: "x \<in> set (ancestors n d) \<Longrightarrow> length x \<le> length d"
proof (induction n arbitrary: d)
  case 0
  then show ?case by simp
next
  case (Suc n)
  show ?case
  proof (cases "\<exists>c \<in> set d. c \<noteq> sep")
    case True
    with Suc.prems have "x = d \<or> x \<in> set (ancestors n (dirname d))" by simp
    then show ?thesis using Suc.IH[of "dirname d"] length_dirname[of d] by auto
  next
    case False
    with Suc.prems show ?thesis by simp
  qed
qed

lemma ancestors_nonempty: "x \<in> set (ancestors n d) \<Longrightarrow> \<exists>c \<in> set d. c \<noteq> sep"
proof (cases n)
  case 0
  assume "x \<in> set (ancestors n d)"
  with 0 show ?thesis by simp
next
  case (Suc k)
  assume a: "x \<in> set (ancestors n d)"
  show ?thesis
  proof (rule ccontr)
    assume "\<not> ?thesis"
    then have "ancestors (Suc k) d = []" by simp
    with a Suc show False by simp
  qed
qed

lemma not_own_ancestor: "p \<notin> set (ancestors n (dirname p))"
proof
  assume a: "p \<in> set (ancestors n (dirname p))"
  then have "length p \<le> length (dirname p)" by (rule ancestors_length)
  moreover have "length (dirname p) < length p"
    using ancestors_nonempty[OF a] by (rule dirname_shorter)
  ultimately show False by simp
qed

lemma extends_refl: "extends f f"
  by (simp add: extends_def)

lemma extends_trans: "extends f g \<Longrightarrow> extends g h \<Longrightarrow> extends f h"
  unfolding extends_def using map_le_trans by blast

lemma extends_exists: "extends f f' \<Longrightarrow> path_exists f p \<Longrightarrow> path_exists f' p"
  unfolding extends_def path_exists_def map_le_def
  by (cases "files f p") (auto simp: dom_def split: option.splits)

lemma extends_makedirs: "extends f (makedirs d f)"
  by (simp add: extends_def makedirs_def)

lemma makedirs_not_exists:
  "\<not> path_exists f p \<Longrightarrow> \<not> path_exists (makedirs (dirname p) f) p"
  using not_own_ancestor[of p "length (dirname p)"]
  by (simp add: path_exists_def makedirs_def split: option.splits)

lemma extends_write:
  "\<not> path_exists f p \<Longrightarrow> extends f (f\<lparr>files := (files f)(p \<mapsto> c)\<rparr>)"
  by (auto simp: extends_def path_exists_def map_le_def split: option.splits)

lemma exists_write: "path_exists (f\<lparr>files := (files f)(p \<mapsto> c)\<rparr>) p"
  by (simp add: path_exists_def)

lemma copy_file_effect:
  assumes "\<not> path_exists f dst"
  shows "extends f (snd (copy_file e src dst f)) \<and>
         (fst (copy_file e src dst f) = None \<longrightarrow> path_exists (snd (copy_file e src dst f)) dst)"
proof -
  define f1 where "f1 = makedirs (dirname dst) f"
  have n1: "\<not> path_exists f1 dst" unfolding f1_def using assms by (rule makedirs_not_exists)
  then have nd: "dst \<notin> dirs f1" by (simp add: path_exists_def split: option.splits)
  have e1: "extends f f1" unfolding f1_def by (rule extends_makedirs)
  have e2: "\<And>c. extends f (f1\<lparr>files := (files f1)(dst \<mapsto> c)\<rparr>)"
    using e1 extends_write[OF n1] extends_trans by blast
  show ?thesis
    using nd e1 e2 extends_refl[of f] exists_write[of f1 dst]
    unfolding copy_file_def Let_def f1_def[symmetric]
    by (simp split: option.splits fault.splits)
qed

lemma create_atomic_link_effect:
  assumes "\<not> path_exists f dst"
  shows "extends f (fst (snd (create_atomic_link e src dst f))) \<and>
         (fst (create_atomic_link e src dst f) = None \<and>
          (\<forall>ev \<in> set (snd (snd (create_atomic_link e src dst f))). \<not> is_error ev)
            \<longrightarrow> path_exists (fst (snd (create_atomic_link e src dst f))) dst)"
proof -
  define f1 where "f1 = makedirs (dirname dst) f"
  have n1: "\<not> path_exists f1 dst" unfolding f1_def using assms by (rule makedirs_not_exists)
  have e1: "extends f f1" unfolding f1_def by (rule extends_makedirs)
  have e2: "\<And>c. extends f (f1\<lparr>files := (files f1)(dst \<mapsto> c)\<rparr>)"
    using e1 extends_write[OF n1] extends_trans by blast
  show ?thesis
    using n1 e1 e2 extends_refl[of f] exists_write[of f1 dst]
    unfolding create_atomic_link_def Let_def f1_def[symmetric]
    by (simp split: option.splits)
qed

lemma place_triple_effect:
  "extends (filesystem st) (filesystem (place_triple e m r st (video, nfo, score))) \<and>
   (\<exists>evs. journal (place_triple e m r st (video, nfo, score)) = journal st @ evs) \<and>
   (\<exists>vs. placed_files (place_triple e m r st (video, nfo, score)) = placed_files st @ vs) \<and>
   updated_series st \<subseteq> updated_series (place_triple e m r st (video, nfo, score)) \<and>
   ((\<forall>ev \<in> set (journal (place_triple e m r st (video, nfo, score))). \<not> is_error ev) \<longrightarrow>
      gated video nfo \<or>
      path_exists (filesystem (place_triple e m r st (video, nfo, score))) (destination_of video nfo))"
proof (cases "gated video nfo")
  case True
  then show ?thesis by (simp add: place_triple_gated extends_refl)
next
  case ng: False
  show ?thesis
  proof (cases "path_exists (filesystem st) (destination_of video nfo)")
    case True
    with ng show ?thesis by (simp add: place_triple_exists extends_refl)
  next
    case ne: False
    show ?thesis
    proof (cases "destination_of video nfo = []")
      case True
      with ng ne show ?thesis
        by (simp add: place_triple_def place_one_def gated_def extends_refl)
    next
      case nonempty: False
      show ?thesis
      proof (cases "m = ''c''")
        case True
        obtain rs f' where c: "copy_file e video (destination_of video nfo) (filesystem st) = (rs, f')"
          by (cases "copy_file e video (destination_of video nfo) (filesystem st)")
        have eff: "extends (filesystem st) f'" "rs = None \<longrightarrow> path_exists f' (destination_of video nfo)"
          using copy_file_effect[OF ne, of e video] c by simp_all
        have g: "\<And>A B :: pstate. (if contains ''one piece'' (lower (basename video)) \<and>
               contains ''one piece yabai'' (lower nfo) \<and> \<not> contains ''yabai'' (lower (basename video))
               then A else B) = B"
          using ng by (auto simp: gated_def)
        show ?thesis
          using ne nonempty True c eff
          by (simp add: place_triple_def place_one_def g Let_def subset_insertI split: option.splits sum.splits)
      next
        case False
        obtain rs f' evs where c: "create_atomic_link e video (destination_of video nfo) (filesystem st) = (rs, f', evs)"
          by (cases "create_atomic_link e video (destination_of video nfo) (filesystem st)")
        have eff: "extends (filesystem st) f'"
          "rs = None \<and> (\<forall>ev \<in> set evs. \<not> is_error ev) \<longrightarrow> path_exists f' (destination_of video nfo)"
          using create_atomic_link_effect[OF ne, of e video] c by simp_all
        have g: "\<And>A B :: pstate. (if contains ''one piece'' (lower (basename video)) \<and>
               contains ''one piece yabai'' (lower nfo) \<and> \<not> contains ''yabai'' (lower (basename video))
               then A else B) = B"
          using ng by (auto simp: gated_def)
        show ?thesis
          using ne nonempty False c eff
          by (simp add: place_triple_def place_one_def g Let_def subset_insertI split: option.splits sum.splits)
      qed
    qed
  qed
qed

lemma fold_effect:
  "extends (filesystem st) (filesystem (foldl (place_triple e m r) st ts)) \<and>
   (\<exists>evs. journal (foldl (place_triple e m r) st ts) = journal st @ evs)"
proof (induction ts arbitrary: st)
  case Nil
  then show ?case by (simp add: extends_refl)
next
  case (Cons t ts)
  obtain video nfo score where t: "t = (video, nfo, score)" by (cases t) auto
  let ?st1 = "place_triple e m r st t"
  have a: "extends (filesystem st) (filesystem ?st1)"
    and b: "\<exists>evs. journal ?st1 = journal st @ evs"
    using place_triple_effect[of st e m r video nfo score] t by simp_all
  from Cons.IH[of ?st1] have c: "extends (filesystem ?st1) (filesystem (foldl (place_triple e m r) ?st1 ts))"
    and d: "\<exists>evs. journal (foldl (place_triple e m r) ?st1 ts) = journal ?st1 @ evs" by simp_all
  from a c have "extends (filesystem st) (filesystem (foldl (place_triple e m r) ?st1 ts))"
    by (rule extends_trans)
  moreover from b d have "\<exists>evs. journal (foldl (place_triple e m r) ?st1 ts) = journal st @ evs"
    by auto
  ultimately show ?case by simp
qed

lemma fold_settled:
  assumes "\<forall>ev \<in> set (journal (foldl (place_triple e m r) st ts)). \<not> is_error ev"
    and "(video, nfo, score) \<in> set ts"
  shows "gated video nfo \<or>
         path_exists (filesystem (foldl (place_triple e m r) st ts)) (destination_of video nfo)"
  using assms
proof (induction ts arbitrary: st)
  case Nil
  then show ?case by simp
next
  case (Cons t ts)
  let ?st1 = "place_triple e m r st t"
  let ?fin = "foldl (place_triple e m r) ?st1 ts"
  have fin: "foldl (place_triple e m r) st (t # ts) = ?fin" by simp
  show ?case
  proof (cases "(video, nfo, score) = t")
    case True
    obtain evs where evs: "journal ?fin = journal ?st1 @ evs"
      using fold_effect[of ?st1 e m r ts] by blast
    have "\<forall>ev \<in> set (journal ?st1). \<not> is_error ev"
      using Cons.prems(1) evs unfolding fin by simp
    then have "gated video nfo \<or> path_exists (filesystem ?st1) (destination_of video nfo)"
      using place_triple_effect[of st e m r video nfo score] True by blast
    moreover have "extends (filesystem ?st1) (filesystem ?fin)"
      using fold_effect[of ?st1 e m r ts] by blast
    ultimately show ?thesis unfolding fin using extends_exists by blast
  next
    case False
    with Cons.prems(2) have "(video, nfo, score) \<in> set ts" by simp
    from Cons.IH[OF _ this, of ?st1] Cons.prems(1) show ?thesis unfolding fin by simp
  qed
qed

lemma fold_noop:
  assumes "\<forall>(video, nfo, score) \<in> set ts.
             gated video nfo \<or> path_exists (filesystem st) (destination_of video nfo)"
  shows "filesystem (foldl (place_triple e m r) st ts) = filesystem st \<and>
         placed_files (foldl (place_triple e m r) st ts) = placed_files st \<and>
         updated_series (foldl (place_triple e m r) st ts) = updated_series st \<and>
         (\<forall>ev \<in> set (journal (foldl (place_triple e m r) st ts)). is_error ev \<longrightarrow> ev \<in> set (journal st))"
  using assms
proof (induction ts arbitrary: st)
  case Nil
  then show ?case by simp
next
  case (Cons t ts)
  obtain video nfo score where t: "t = (video, nfo, score)" by (cases t) auto
  let ?st1 = "place_triple e m r st t"
  from Cons.prems t have here: "gated video nfo \<or> path_exists (filesystem st) (destination_of video nfo)"
    by simp
  have st1: "?st1 = st \<or> ?st1 = st\<lparr>journal := journal st @ [Warning_ignored video nfo]\<rparr>"
    using here place_triple_gated[of video nfo e m r st score]
      place_triple_exists[of video nfo st e m r score] t by auto
  then have same: "filesystem ?st1 = filesystem st" "placed_files ?st1 = placed_files st"
    "updated_series ?st1 = updated_series st"
    "\<forall>ev \<in> set (journal ?st1). is_error ev \<longrightarrow> ev \<in> set (journal st)"
    by auto
  have "\<forall>(video, nfo, score) \<in> set ts.
             gated video nfo \<or> path_exists (filesystem ?st1) (destination_of video nfo)"
    using Cons.prems same(1) by simp
  from Cons.IH[OF this] same show ?case by simp
qed

lemma place_files_fold:
  "place_files e standard op_matches m r f = (placed, series, f', events) \<Longrightarrow>
   placed = set (placed_files (foldl (place_triple e m r) (pstate_init f) (triples_of (all_matches_of standard op_matches)))) \<and>
   series = updated_series (foldl (place_triple e m r) (pstate_init f) (triples_of (all_matches_of standard op_matches))) \<and>
   f' = filesystem (foldl (place_triple e m r) (pstate_init f) (triples_of (all_matches_of standard op_matches))) \<and>
   events = journal (foldl (place_triple e m r) (pstate_init f) (triples_of (all_matches_of standard op_matches)))"
  by (auto simp add: place_files_def place_loop_def place_loop_triples Let_def)

subsection \<open>Destinations that the gate skips\<close>

lemma same_effect_refl: "same_effect st st"
  by (simp add: same_effect_def)

lemma same_effect_journal: "same_effect (st\<lparr>journal := j\<rparr>) st"
  by (simp add: same_effect_def)

lemma same_effect_trans: "same_effect a b \<Longrightarrow> same_effect b c \<Longrightarrow> same_effect a c"
  by (simp add: same_effect_def)

lemma same_effect_sym: "same_effect a b \<Longrightarrow> same_effect b a"
  by (simp add: same_effect_def)

lemma place_one_same_effect:
  assumes "same_effect st st'"
  shows "same_effect (place_one e m r video a b st (nfo, score))
                     (place_one e m r video a b st' (nfo, score))"
proof (cases "a \<and> contains ''one piece yabai'' (lower nfo) \<and> \<not> b")
  case True
  then show ?thesis using assms by (simp add: place_one_def same_effect_def)
next
  case False
  then have g: "\<And>A B :: pstate. (if a \<and> contains ''one piece yabai'' (lower nfo) \<and> \<not> b
               then A else B) = B" by auto
  from assms have fs: "filesystem st' = filesystem st" by (simp add: same_effect_def)
  show ?thesis
  proof (cases "path_exists (filesystem st) (destination_of video nfo)")
    case True
    then show ?thesis using assms fs by (simp add: place_one_def g)
  next
    case ne: False
    show ?thesis
    proof (cases "destination_of video nfo = []")
      case True
      then show ?thesis using assms fs ne by (simp add: place_one_def g same_effect_def)
    next
      case nonempty: False
      show ?thesis
      proof (cases "m = ''c''")
        case True
        obtain rs f' where c: "copy_file e video (destination_of video nfo) (filesystem st) = (rs, f')"
          by (cases "copy_file e video (destination_of video nfo) (filesystem st)")
        show ?thesis
          using ne nonempty True c fs assms
          by (simp add: place_one_def g Let_def same_effect_def split: option.splits sum.splits)
      next
        case False
        obtain rs f' evs where c: "create_atomic_link e video (destination_of video nfo) (filesystem st) = (rs, f', evs)"
          by (cases "create_atomic_link e video (destination_of video nfo) (filesystem st)")
        show ?thesis
          using ne nonempty False c fs assms
          by (simp add: place_one_def g Let_def same_effect_def split: option.splits sum.splits)
      qed
    qed
  qed
qed

lemma fold_place_one_filter:
  assumes "same_effect st st'"
  shows "same_effect
           (foldl (place_one e m r video True False) st opts)
           (foldl (place_one e m r video True False) st'
              (filter (\<lambda>(nfo, score). \<not> contains ''one piece yabai'' (lower nfo)) opts))"
  using assms
proof (induction opts arbitrary: st st')
  case Nil
  then show ?case by simp
next
  case (Cons opt opts)
  obtain nfo score where o: "opt = (nfo, score)" by (cases opt)
  show ?case
  proof (cases "contains ''one piece yabai'' (lower nfo)")
    case True
    have "place_one e m r video True False st (nfo, score) =
            st\<lparr>journal := journal st @ [Warning_ignored video nfo]\<rparr>"
      using True by (rule place_one_gate)
    then have "same_effect (place_one e m r video True False st (nfo, score)) st'"
      using Cons.prems by (simp add: same_effect_def)
    from Cons.IH[OF this] True show ?thesis by (simp add: o)
  next
    case False
    have "same_effect (place_one e m r video True False st (nfo, score))
                      (place_one e m r video True False st' (nfo, score))"
      using Cons.prems by (rule place_one_same_effect)
    from Cons.IH[OF this] False show ?thesis by (simp add: o)
  qed
qed

lemma fold_warning:
  assumes "(video, nfo, score) \<in> set ts" and "gated video nfo"
  shows "Warning_ignored video nfo \<in> set (journal (foldl (place_triple e m r) st ts))"
  using assms(1)
proof (induction ts arbitrary: st)
  case Nil
  then show ?case by simp
next
  case (Cons t ts)
  let ?st1 = "place_triple e m r st t"
  show ?case
  proof (cases "(video, nfo, score) = t")
    case True
    then have "journal ?st1 = journal st @ [Warning_ignored video nfo]"
      using place_triple_gated[OF assms(2), of e m r st score] by simp
    moreover obtain evs where "journal (foldl (place_triple e m r) ?st1 ts) = journal ?st1 @ evs"
      using fold_effect[of ?st1 e m r ts] by blast
    ultimately show ?thesis by simp
  next
    case False
    with Cons.prems have "(video, nfo, score) \<in> set ts" by simp
    from Cons.IH[OF this, of ?st1] show ?thesis by simp
  qed
qed

lemma place_video_untagged:
  assumes "contains ''one piece'' (lower (basename video))"
    and "\<not> contains ''yabai'' (lower (basename video))"
  shows "place_video e m r pst (video, dests) =
           foldl (place_one e m r video True False) pst dests"
  using assms by (simp add: place_video_def)

lemma untagged_run:
  assumes "contains ''one piece'' (lower (basename video))"
    and "\<not> contains ''yabai'' (lower (basename video))"
  shows "filesystem (place_video e m r pst (video, dests)) =
           filesystem (place_video e m r pst
             (video, filter (\<lambda>(nfo, score). \<not> contains ''one piece yabai'' (lower nfo)) dests)) \<and>
         placed_files (place_video e m r pst (video, dests)) =
           placed_files (place_video e m r pst
             (video, filter (\<lambda>(nfo, score). \<not> contains ''one piece yabai'' (lower nfo)) dests)) \<and>
         updated_series (place_video e m r pst (video, dests)) =
           updated_series (place_video e m r pst
             (video, filter (\<lambda>(nfo, score). \<not> contains ''one piece yabai'' (lower nfo)) dests)) \<and>
         (\<forall>(nfo, score) \<in> set dests. contains ''one piece yabai'' (lower nfo) \<longrightarrow>
            Warning_ignored video nfo \<in> set (journal (place_video e m r pst (video, dests)))) \<and>
         ((\<forall>ev \<in> set (journal (place_video e m r pst (video, dests))). \<not> is_error ev) \<longrightarrow>
            (\<forall>(nfo, score) \<in> set dests. \<not> contains ''one piece yabai'' (lower nfo) \<longrightarrow>
               path_exists (filesystem (place_video e m r pst (video, dests)))
                 (destination_of video nfo)))"
proof -
  let ?run = "place_video e m r pst (video, dests)"
  let ?kept = "filter (\<lambda>(nfo, score). \<not> contains ''one piece yabai'' (lower nfo)) dests"
  have "same_effect ?run (place_video e m r pst (video, ?kept))"
    unfolding place_video_untagged[OF assms]
    using fold_place_one_filter[OF same_effect_refl] .
  then have a: "filesystem ?run = filesystem (place_video e m r pst (video, ?kept))"
    "placed_files ?run = placed_files (place_video e m r pst (video, ?kept))"
    "updated_series ?run = updated_series (place_video e m r pst (video, ?kept))"
    by (simp_all add: same_effect_def)
  have tr: "?run = foldl (place_triple e m r) pst (map (Pair video) dests)"
    by (rule place_video_triples)
  have w: "\<forall>(nfo, score) \<in> set dests. contains ''one piece yabai'' (lower nfo) \<longrightarrow>
            Warning_ignored video nfo \<in> set (journal ?run)"
  proof (clarify)
    fix nfo score
    assume m: "(nfo, score) \<in> set dests" and y: "contains ''one piece yabai'' (lower nfo)"
    have g: "gated video nfo" using assms y by (simp add: gated_def)
    have "(video, nfo, score) \<in> set (map (Pair video) dests)" using m by auto
    from fold_warning[OF this g] show "Warning_ignored video nfo \<in> set (journal ?run)"
      unfolding tr .
  qed
  have p: "\<forall>(nfo, score) \<in> set dests. \<not> contains ''one piece yabai'' (lower nfo) \<longrightarrow>
               path_exists (filesystem ?run) (destination_of video nfo)"
    if ok: "\<forall>ev \<in> set (journal ?run). \<not> is_error ev"
  proof (clarify)
    fix nfo score
    assume m: "(nfo, score) \<in> set dests" and y: "\<not> contains ''one piece yabai'' (lower nfo)"
    have g: "\<not> gated video nfo" using y by (simp add: gated_def)
    have "(video, nfo, score) \<in> set (map (Pair video) dests)" using m by auto
    from fold_settled[OF _ this, of e m r pst] ok g
    show "path_exists (filesystem ?run) (destination_of video nfo)"
      unfolding tr by blast
  qed
  from a w p show ?thesis by blast
qed

lemma makedirs_files: "files (makedirs d f) = files f"
  by (simp add: makedirs_def)

section \<open>The claims\<close>

subsection \<open>Override supremacy\<close>

text \<open>
  C1. A video whose basename has an entry in the rename dictionary, with a target that is
  the basename of an NFO, gets exactly one new result from the loop body, whatever the
  scorer is: the standard match to the NFO of that basename, with the score 101, above
  every score of a scorer bounded by 100. In the result of \<open>find_matches\<close> the
  standard matches of such a video are that one match only, and the video is neither a
  key of the One Piece matches nor among the unmatched videos.
\<close>

theorem override_supremacy:
  assumes "rename_dict (stem video) = Some target"
    and "target \<in> set (keys (nfo_basenames_of nfo_files))"
  shows "\<exists>nfo. dict_get (nfo_basenames_of nfo_files) target = Inr nfo \<and> stem nfo = target \<and>
           match_video scorer (nfo_basenames_of nfo_files) rename_dict threshold st video =
             Inr (st\<lparr>standard_matches := standard_matches st @ [(video, nfo, override_score)]\<rparr>) \<and>
           (\<forall>a b. scorer a b \<le> 100 \<longrightarrow> scorer a b < override_score) \<and>
           (\<exists>r. find_matches scorer video_files nfo_files rename_dict threshold = Inr r \<and>
                (video \<in> set video_files \<longrightarrow>
                   (\<forall>n s. ((video, n, s) \<in> set (standard_matches r)) =
                           (n = nfo \<and> s = override_score)) \<and>
                   \<not> via_fan_out r video \<and> \<not> is_unmatched r video))"
proof -
  let ?nfos = "nfo_basenames_of nfo_files"
  let ?D = "outcome_of scorer ?nfos rename_dict threshold"
  let ?r = "foldl merge mstate_init (map ?D video_files)"
  obtain nfo where nfo: "dict_get ?nfos target = Inr nfo"
      and mem: "(target, nfo) \<in> set ?nfos"
    using dict_get_in_keys[OF assms(2)] by blast
  have step: "\<And>st. rename_or_one_piece scorer ?nfos rename_dict threshold st video =
          Inr (st\<lparr>standard_matches := standard_matches st @ [(video, nfo, override_score)]\<rparr>, True)"
    using assms nfo by (simp add: rename_or_one_piece_def)
  then have body: "\<And>st. match_video scorer ?nfos rename_dict threshold st video =
             Inr (st\<lparr>standard_matches := standard_matches st @ [(video, nfo, override_score)]\<rparr>)"
    by (simp add: match_video_def)
  have st: "stem nfo = target" using nfo_basenames_stem[OF mem] .
  have above: "\<forall>a b. scorer a b \<le> 100 \<longrightarrow> scorer a b < override_score"
    by (auto simp: override_score_def)
  have D: "?D video = \<lparr>standard_matches = [(video, nfo, override_score)], unmatched = [],
                        one_piece_matches = []\<rparr>"
    unfolding outcome_of_def using body[of mstate_init] by (simp add: mstate_init_def)
  have sh: "\<And>w. shape threshold w (?D w)" using outcome_of_merge by blast
  have r: "find_matches scorer video_files nfo_files rename_dict threshold = Inr ?r"
    unfolding find_matches_def by (rule match_videos_merge)
  note v = result_views[where D = ?D and videos = video_files and T = threshold, OF sh]
  note e = result_entries[where D = ?D and videos = video_files and T = threshold, OF sh]
  have "(\<forall>n s. ((video, n, s) \<in> set (standard_matches ?r)) = (n = nfo \<and> s = override_score)) \<and>
        \<not> via_fan_out ?r video \<and> \<not> is_unmatched ?r video"
    if "video \<in> set video_files"
  proof -
    have f: "\<not> via_fan_out (?D video) video" by (simp add: D via_fan_out_def keys_def)
    have u: "\<not> is_unmatched (?D video) video" by (simp add: D is_unmatched_def keys_def)
    have "\<not> via_fan_out ?r video" using f by (simp only: v) simp
    moreover have "\<not> is_unmatched ?r video" using u by (simp only: v) simp
    moreover have "\<forall>n s. ((video, n, s) \<in> set (standard_matches ?r)) = (n = nfo \<and> s = override_score)"
      using that by (simp only: e D) simp
    ultimately show ?thesis by blast
  qed
  with r have "\<exists>r. find_matches scorer video_files nfo_files rename_dict threshold = Inr r \<and>
                (video \<in> set video_files \<longrightarrow>
                   (\<forall>n s. ((video, n, s) \<in> set (standard_matches r)) =
                           (n = nfo \<and> s = override_score)) \<and>
                   \<not> via_fan_out r video \<and> \<not> is_unmatched r video)"
    by blast
  with nfo st body above show ?thesis by blast
qed

theorem override_supremacy_witness:
  "[''Film X'' \<mapsto> ''Film Y''] (stem ''/dl/Film X.mkv'') = Some ''Film Y'' \<and>
   ''Film Y'' \<in> set (keys (nfo_basenames_of [''/m/A/Film X.nfo'', ''/m/B/Film Y.nfo''])) \<and>
   ''/dl/Film X.mkv'' \<in> set [''/dl/Film X.mkv''] \<and>
   (\<exists>nfo. dict_get (nfo_basenames_of [''/m/A/Film X.nfo'', ''/m/B/Film Y.nfo'']) ''Film Y'' = Inr nfo \<and>
      stem nfo = ''Film Y'' \<and>
      match_video ratio (nfo_basenames_of [''/m/A/Film X.nfo'', ''/m/B/Film Y.nfo''])
          [''Film X'' \<mapsto> ''Film Y''] 95 mstate_init ''/dl/Film X.mkv'' =
        Inr (mstate_init\<lparr>standard_matches :=
               standard_matches mstate_init @ [(''/dl/Film X.mkv'', nfo, override_score)]\<rparr>) \<and>
      (\<forall>a b. ratio a b \<le> 100 \<longrightarrow> ratio a b < override_score) \<and>
      (\<exists>r. find_matches ratio [''/dl/Film X.mkv''] [''/m/A/Film X.nfo'', ''/m/B/Film Y.nfo'']
              [''Film X'' \<mapsto> ''Film Y''] 95 = Inr r \<and>
           (\<forall>n s. ((''/dl/Film X.mkv'', n, s) \<in> set (standard_matches r)) =
                   (n = nfo \<and> s = override_score)) \<and>
           \<not> via_fan_out r ''/dl/Film X.mkv'' \<and> \<not> is_unmatched r ''/dl/Film X.mkv''))"
proof -
  have h1: "[''Film X'' \<mapsto> ''Film Y''] (stem ''/dl/Film X.mkv'') = Some ''Film Y''"
    by (simp add: path_defs)
  have h2: "''Film Y'' \<in> set (keys (nfo_basenames_of [''/m/A/Film X.nfo'', ''/m/B/Film Y.nfo'']))"
    by (simp add: path_defs nfo_basenames_of_def keys_def)
  have h3: "''/dl/Film X.mkv'' \<in> set [''/dl/Film X.mkv'']" by simp
  show ?thesis
    using h1 h2 h3
      override_supremacy[where rename_dict = "[''Film X'' \<mapsto> ''Film Y'']"
        and video = "''/dl/Film X.mkv''" and target = "''Film Y''"
        and nfo_files = "[''/m/A/Film X.nfo'', ''/m/B/Film Y.nfo'']"
        and scorer = ratio and threshold = 95 and st = mstate_init
        and video_files = "[''/dl/Film X.mkv'']"]
    by blast
qed

subsection \<open>Where the release gate stands\<close>

text \<open>
  C2, as stated, fails: \<open>find_matches\<close> has no release gate. A One Piece video
  without the Yabai tag that scores 96 against an NFO under a Yabai directory and against
  another NFO is assigned both.
\<close>

theorem matcher_gate_counterexample:
  "\<not> contains ''yabai'' (lower (basename ''/dl/One Piece 01.mkv'')) \<and>
   contains ''one piece yabai'' (lower ''/m/One Piece Yabai/One Piece 01a.nfo'') \<and>
   find_matches_default ratio [''/dl/One Piece 01.mkv'']
     [''/m/One Piece Yabai/One Piece 01a.nfo'', ''/m/One Piece Kai/One Piece 01b.nfo'']
     Map.empty =
   Inr \<lparr>standard_matches = [], unmatched = [],
        one_piece_matches =
          [(''/dl/One Piece 01.mkv'',
            [(''/m/One Piece Yabai/One Piece 01a.nfo'', 96),
             (''/m/One Piece Kai/One Piece 01b.nfo'', 96)])]\<rparr>"
  by code_simp

text \<open>
  C2, amended. The gate stands in the placer, not in the matcher. For a One Piece video
  without a rename entry, a One Piece NFO that reaches the threshold is among the
  destinations that the matcher assigns whether or not its path carries the Yabai marker:
  always when at most five One Piece NFOs reach the threshold, and otherwise unless five
  destinations scoring at least as much fill the list. When the video lacks the Yabai
  tag, the placer run over these destinations leaves the filesystem, the placed files and
  the updated series of the run over the destinations without the marker alone, logs a
  warning for each destination with the marker, and, when it logs no error, every
  destination without the marker exists afterwards.
\<close>

theorem gate_in_placer:
  assumes "rename_dict (stem video) = None"
    and "is_one_piece (stem video)"
    and "\<not> contains ''yabai'' (lower (basename video))"
    and "k \<in> set (keys (op_nfo_choices_of nfo_basenames))"
    and "threshold \<le> scorer (stem video) k"
  shows "\<exists>dests nfo.
           match_video scorer nfo_basenames rename_dict threshold st video =
             Inr (st\<lparr>one_piece_matches := dict_set (one_piece_matches st) video dests\<rparr>) \<and>
           dict_get (op_nfo_choices_of nfo_basenames) k = Inr nfo \<and>
           ((nfo, scorer (stem video) k) \<in> set dests \<or>
            length dests = default_limit \<and>
            (\<forall>(other, score) \<in> set dests. scorer (stem video) k \<le> score)) \<and>
           (length (filter (\<lambda>c. threshold \<le> scorer (stem video) c)
                      (keys (op_nfo_choices_of nfo_basenames))) \<le> default_limit \<longrightarrow>
              (nfo, scorer (stem video) k) \<in> set dests) \<and>
           filesystem (place_video e placement_mode media_root pst (video, dests)) =
             filesystem (place_video e placement_mode media_root pst
               (video, filter (\<lambda>(nfo, score). \<not> contains ''one piece yabai'' (lower nfo)) dests)) \<and>
           placed_files (place_video e placement_mode media_root pst (video, dests)) =
             placed_files (place_video e placement_mode media_root pst
               (video, filter (\<lambda>(nfo, score). \<not> contains ''one piece yabai'' (lower nfo)) dests)) \<and>
           updated_series (place_video e placement_mode media_root pst (video, dests)) =
             updated_series (place_video e placement_mode media_root pst
               (video, filter (\<lambda>(nfo, score). \<not> contains ''one piece yabai'' (lower nfo)) dests)) \<and>
           (\<forall>(nfo, score) \<in> set dests. contains ''one piece yabai'' (lower nfo) \<longrightarrow>
              Warning_ignored video nfo \<in>
                set (journal (place_video e placement_mode media_root pst (video, dests)))) \<and>
           ((\<forall>ev \<in> set (journal (place_video e placement_mode media_root pst (video, dests))).
                \<not> is_error ev) \<longrightarrow>
              (\<forall>(nfo, score) \<in> set dests. \<not> contains ''one piece yabai'' (lower nfo) \<longrightarrow>
                 path_exists (filesystem (place_video e placement_mode media_root pst (video, dests)))
                   (destination_of video nfo)))"
proof -
  have op: "contains ''one piece'' (lower (basename video))"
    using assms(2) by (rule one_piece_basename)
  obtain dests nfo where m:
    "match_video scorer nfo_basenames rename_dict threshold st video =
       Inr (st\<lparr>one_piece_matches := dict_set (one_piece_matches st) video dests\<rparr>)"
    "dict_get (op_nfo_choices_of nfo_basenames) k = Inr nfo"
    "(nfo, scorer (stem video) k) \<in> set dests \<or>
       length dests = default_limit \<and>
       (\<forall>(other, score) \<in> set dests. scorer (stem video) k \<le> score)"
    "length (filter (\<lambda>c. threshold \<le> scorer (stem video) c)
                      (keys (op_nfo_choices_of nfo_basenames))) \<le> default_limit \<longrightarrow>
              (nfo, scorer (stem video) k) \<in> set dests"
    using fan_out_eligible[where rename_dict = rename_dict and video = video and k = k
        and nfo_basenames = nfo_basenames and threshold = threshold and scorer = scorer
        and st = st] assms(1,2,4,5) by blast
  note u = untagged_run[OF op assms(3), of e placement_mode media_root pst dests]
  from m u show ?thesis by blast
qed

theorem gate_in_placer_witness:
  "Map.empty (stem ''/dl/One Piece 01.mkv'') = (None :: string option) \<and>
   is_one_piece (stem ''/dl/One Piece 01.mkv'') \<and>
   \<not> contains ''yabai'' (lower (basename ''/dl/One Piece 01.mkv'')) \<and>
   ''One Piece 01a'' \<in> set (keys (op_nfo_choices_of (nfo_basenames_of
      [''/m/One Piece Yabai/One Piece 01a.nfo'', ''/m/One Piece Kai/One Piece 01b.nfo'']))) \<and>
   default_threshold \<le> ratio (stem ''/dl/One Piece 01.mkv'') ''One Piece 01a'' \<and>
   (\<exists>dests nfo.
      match_video ratio (nfo_basenames_of
          [''/m/One Piece Yabai/One Piece 01a.nfo'', ''/m/One Piece Kai/One Piece 01b.nfo''])
        Map.empty default_threshold mstate_init ''/dl/One Piece 01.mkv'' =
        Inr (mstate_init\<lparr>one_piece_matches :=
               dict_set (one_piece_matches mstate_init) ''/dl/One Piece 01.mkv'' dests\<rparr>) \<and>
      dict_get (op_nfo_choices_of (nfo_basenames_of
          [''/m/One Piece Yabai/One Piece 01a.nfo'', ''/m/One Piece Kai/One Piece 01b.nfo'']))
        ''One Piece 01a'' = Inr nfo \<and>
      ((nfo, ratio (stem ''/dl/One Piece 01.mkv'') ''One Piece 01a'') \<in> set dests \<or>
       length dests = default_limit \<and>
       (\<forall>(other, score) \<in> set dests.
          ratio (stem ''/dl/One Piece 01.mkv'') ''One Piece 01a'' \<le> score))) \<and>
   find_matches_default ratio [''/dl/One Piece 01.mkv'']
       [''/m/One Piece Yabai/One Piece 01a.nfo'', ''/m/One Piece Kai/One Piece 01b.nfo'']
       Map.empty =
     Inr \<lparr>standard_matches = [], unmatched = [],
          one_piece_matches =
            [(''/dl/One Piece 01.mkv'',
              [(''/m/One Piece Yabai/One Piece 01a.nfo'', 96),
               (''/m/One Piece Kai/One Piece 01b.nfo'', 96)])]\<rparr> \<and>
   (case place_files
           \<lparr>is_windows = False, fault_at = (\<lambda>source destination. NoFault),
             fsutil_ok = (\<lambda>source destination. False)\<rparr>
           []
           [(''/dl/One Piece 01.mkv'',
             [(''/m/One Piece Yabai/One Piece 01a.nfo'', 96),
              (''/m/One Piece Kai/One Piece 01b.nfo'', 96)])]
           ''c'' ''/m''
           \<lparr>files = [''/dl/One Piece 01.mkv'' \<mapsto> ''data''], dirs = {''/dl'', ''/m''}\<rparr> of
      (placed, series, f', events) \<Rightarrow>
        placed = {''/dl/One Piece 01.mkv''} \<and>
        \<not> path_exists f' ''/m/One Piece Yabai/One Piece 01a.mkv'' \<and>
        files f' ''/m/One Piece Kai/One Piece 01b.mkv'' = Some ''data'' \<and>
        events =
          [Warning_ignored ''/dl/One Piece 01.mkv'' ''/m/One Piece Yabai/One Piece 01a.nfo'',
           Info_placing ''/dl/One Piece 01.mkv'' ''/m/One Piece Kai/One Piece 01b.mkv'' 96])"
proof -
  let ?nfos = "nfo_basenames_of
      [''/m/One Piece Yabai/One Piece 01a.nfo'', ''/m/One Piece Kai/One Piece 01b.nfo'']"
  let ?e = "\<lparr>is_windows = False, fault_at = (\<lambda>source destination. NoFault),
             fsutil_ok = (\<lambda>source destination. False)\<rparr>"
  let ?f = "\<lparr>files = [''/dl/One Piece 01.mkv'' \<mapsto> ''data''], dirs = {''/dl'', ''/m''}\<rparr>"
  have h1: "Map.empty (stem ''/dl/One Piece 01.mkv'') = (None :: string option)" by simp
  have h2: "is_one_piece (stem ''/dl/One Piece 01.mkv'')" by code_simp
  have h3: "\<not> contains ''yabai'' (lower (basename ''/dl/One Piece 01.mkv''))" by code_simp
  have h4: "''One Piece 01a'' \<in> set (keys (op_nfo_choices_of ?nfos))" by code_simp
  have h5: "default_threshold \<le> ratio (stem ''/dl/One Piece 01.mkv'') ''One Piece 01a''"
    by code_simp
  have m: "find_matches_default ratio [''/dl/One Piece 01.mkv'']
       [''/m/One Piece Yabai/One Piece 01a.nfo'', ''/m/One Piece Kai/One Piece 01b.nfo'']
       Map.empty =
     Inr \<lparr>standard_matches = [], unmatched = [],
          one_piece_matches =
            [(''/dl/One Piece 01.mkv'',
              [(''/m/One Piece Yabai/One Piece 01a.nfo'', 96),
               (''/m/One Piece Kai/One Piece 01b.nfo'', 96)])]\<rparr>"
    by code_simp
  have p: "(case place_files ?e []
           [(''/dl/One Piece 01.mkv'',
             [(''/m/One Piece Yabai/One Piece 01a.nfo'', 96),
              (''/m/One Piece Kai/One Piece 01b.nfo'', 96)])]
           ''c'' ''/m'' ?f of
      (placed, series, f', events) \<Rightarrow>
        placed = {''/dl/One Piece 01.mkv''} \<and>
        \<not> path_exists f' ''/m/One Piece Yabai/One Piece 01a.mkv'' \<and>
        files f' ''/m/One Piece Kai/One Piece 01b.mkv'' = Some ''data'' \<and>
        events =
          [Warning_ignored ''/dl/One Piece 01.mkv'' ''/m/One Piece Yabai/One Piece 01a.nfo'',
           Info_placing ''/dl/One Piece 01.mkv'' ''/m/One Piece Kai/One Piece 01b.mkv'' 96])"
    by code_simp
  from gate_in_placer[where rename_dict = Map.empty and video = "''/dl/One Piece 01.mkv''"
        and k = "''One Piece 01a''" and nfo_basenames = ?nfos and threshold = default_threshold
        and scorer = ratio and st = mstate_init and e = ?e and placement_mode = "''c''"
        and media_root = "''/m''" and pst = "pstate_init ?f", OF h1 h2 h3 h4 h5]
  have "\<exists>dests nfo.
      match_video ratio ?nfos Map.empty default_threshold mstate_init ''/dl/One Piece 01.mkv'' =
        Inr (mstate_init\<lparr>one_piece_matches :=
               dict_set (one_piece_matches mstate_init) ''/dl/One Piece 01.mkv'' dests\<rparr>) \<and>
      dict_get (op_nfo_choices_of ?nfos) ''One Piece 01a'' = Inr nfo \<and>
      ((nfo, ratio (stem ''/dl/One Piece 01.mkv'') ''One Piece 01a'') \<in> set dests \<or>
       length dests = default_limit \<and>
       (\<forall>(other, score) \<in> set dests.
          ratio (stem ''/dl/One Piece 01.mkv'') ''One Piece 01a'' \<le> score))"
    by blast
  with h1 h2 h3 h4 h5 m p show ?thesis by blast
qed

subsection \<open>The size of the fan-out\<close>

text \<open>
  C3. The fan-out is meant to keep every One Piece NFO that reaches the threshold (the
  comment of line 306 says all of them), but \<open>process.extract\<close> is called without a
  limit and so returns its default of five results. Here six NFOs score 96 against the
  video, at the default threshold of 95, and the sixth is not among the destinations.
\<close>

theorem fan_out_limited_to_five:
  "default_threshold \<le> ratio ''One Piece 01'' ''One Piece 01f'' \<and>
   find_matches_default ratio [''/dl/One Piece 01.mkv'']
     [''/m/A/One Piece 01a.nfo'', ''/m/B/One Piece 01b.nfo'', ''/m/C/One Piece 01c.nfo'',
      ''/m/D/One Piece 01d.nfo'', ''/m/E/One Piece 01e.nfo'', ''/m/F/One Piece 01f.nfo'']
     Map.empty =
   Inr \<lparr>standard_matches = [], unmatched = [],
        one_piece_matches =
          [(''/dl/One Piece 01.mkv'',
            [(''/m/A/One Piece 01a.nfo'', 96), (''/m/B/One Piece 01b.nfo'', 96),
             (''/m/C/One Piece 01c.nfo'', 96), (''/m/D/One Piece 01d.nfo'', 96),
             (''/m/E/One Piece 01e.nfo'', 96)])]\<rparr>"
  by code_simp

subsection \<open>Running the placer twice\<close>

text \<open>
  C4, as stated, fails when a placement of the first run fails: the placer keeps no
  record of a failure and tries again. In copy mode a transfer that fails in the first
  run and succeeds in the second places the video in the second run; in hardlink mode
  a link that fails in both runs is counted as placed in both.
\<close>

theorem rerun_counterexample:
  "(let e1 = \<lparr>is_windows = False, fault_at = (\<lambda>source destination. TransferFault),
               fsutil_ok = (\<lambda>source destination. False)\<rparr>;
        e2 = \<lparr>is_windows = False, fault_at = (\<lambda>source destination. NoFault),
               fsutil_ok = (\<lambda>source destination. False)\<rparr>;
        f = \<lparr>files = [''/dl/Naruto 001.mkv'' \<mapsto> ''data''], dirs = {''/dl'', ''/m''}\<rparr>;
        standard = [(''/dl/Naruto 001.mkv'', ''/m/Naruto/Naruto - 01.nfo'', 96)]
    in (case place_files e1 standard [] ''c'' ''/m'' f of
          (placed1, series1, f1, events1) \<Rightarrow>
            (case place_files e2 standard [] ''c'' ''/m'' f1 of
               (placed2, series2, f2, events2) \<Rightarrow>
                 placed1 = {} \<and> files f1 ''/m/Naruto/Naruto - 01.mkv'' = None \<and>
                 placed2 = {''/dl/Naruto 001.mkv''} \<and>
                 files f2 ''/m/Naruto/Naruto - 01.mkv'' = Some ''data'')) \<and>
       (case place_files e1 standard [] ''h'' ''/m'' f of
          (placed1, series1, f1, events1) \<Rightarrow>
            (case place_files e1 standard [] ''h'' ''/m'' f1 of
               (placed2, series2, f2, events2) \<Rightarrow>
                 placed2 = {''/dl/Naruto 001.mkv''} \<and>
                 files f2 ''/m/Naruto/Naruto - 01.mkv'' = None)))"
  by code_simp

text \<open>
  C4, amended. A triple whose destination path exists changes nothing but, for a gated
  triple, the log, where it adds a warning and no error; a run keeps every file that
  existed, with its content; and when the first run logs no error, a second run over the
  filesystem it leaves, whatever the mode and the failures of the environment then,
  places nothing, updates no series, logs no error and leaves the same filesystem.
\<close>

theorem placement_idempotent:
  assumes "place_files e1 standard op_matches mode1 root1 f = (placed1, series1, f1, events1)"
    and "place_files e2 standard op_matches mode2 root2 f1 = (placed2, series2, f2, events2)"
  shows "(\<forall>st video nfo score is_op_video is_yabai_release.
            path_exists (filesystem st) (destination_of video nfo) \<longrightarrow>
              place_one e1 mode1 root1 video is_op_video is_yabai_release st (nfo, score) = st \<or>
              place_one e1 mode1 root1 video is_op_video is_yabai_release st (nfo, score) =
                st\<lparr>journal := journal st @ [Warning_ignored video nfo]\<rparr>) \<and>
         extends f f1 \<and>
         ((\<forall>ev \<in> set events1. \<not> is_error ev) \<longrightarrow>
            placed2 = {} \<and> series2 = {} \<and> f2 = f1 \<and> (\<forall>ev \<in> set events2. \<not> is_error ev))"
proof -
  let ?ts = "triples_of (all_matches_of standard op_matches)"
  let ?run1 = "foldl (place_triple e1 mode1 root1) (pstate_init f) ?ts"
  let ?run2 = "foldl (place_triple e2 mode2 root2) (pstate_init f1) ?ts"
  note a = place_files_fold[OF assms(1)]
  note b = place_files_fold[OF assms(2)]
  have one: "\<forall>st video nfo score is_op_video is_yabai_release.
            path_exists (filesystem st) (destination_of video nfo) \<longrightarrow>
              place_one e1 mode1 root1 video is_op_video is_yabai_release st (nfo, score) = st \<or>
              place_one e1 mode1 root1 video is_op_video is_yabai_release st (nfo, score) =
                st\<lparr>journal := journal st @ [Warning_ignored video nfo]\<rparr>"
    by (simp add: place_one_def)
  have ext: "extends f f1"
    using fold_effect[of "pstate_init f" e1 mode1 root1 ?ts] a by (simp add: pstate_init_def)
  have idem: "placed2 = {} \<and> series2 = {} \<and> f2 = f1 \<and> (\<forall>ev \<in> set events2. \<not> is_error ev)"
    if ok: "\<forall>ev \<in> set events1. \<not> is_error ev"
  proof -
    have "\<forall>(video, nfo, score) \<in> set ?ts.
            gated video nfo \<or> path_exists (filesystem (pstate_init f1)) (destination_of video nfo)"
    proof (clarify)
      fix video nfo score
      assume "(video, nfo, score) \<in> set ?ts"
        and "\<not> path_exists (filesystem (pstate_init f1)) (destination_of video nfo)"
      then show "gated video nfo"
        using fold_settled[of e1 mode1 root1 "pstate_init f" ?ts video nfo score] ok a
        by (simp add: pstate_init_def)
    qed
    from fold_noop[OF this, of e2 mode2 root2] b show ?thesis
      by (simp add: pstate_init_def)
  qed
  from one ext idem show ?thesis by blast
qed

theorem placement_idempotent_witness:
  "(let e = \<lparr>is_windows = False, fault_at = (\<lambda>source destination. NoFault),
              fsutil_ok = (\<lambda>source destination. False)\<rparr>;
        f = \<lparr>files = [''/dl/Naruto 001.mkv'' \<mapsto> ''data''], dirs = {''/dl'', ''/m''}\<rparr>;
        standard = [(''/dl/Naruto 001.mkv'', ''/m/Naruto/Naruto - 01.nfo'', 96)];
        r1 = place_files e standard [] ''c'' ''/m'' f;
        r2 = place_files e standard [] ''c'' ''/m'' (fst (snd (snd r1)))
    in fst r1 = {''/dl/Naruto 001.mkv''} \<and>
       (\<forall>ev \<in> set (snd (snd (snd r1))). \<not> is_error ev) \<and>
       extends f (fst (snd (snd r1))) \<and>
       fst r2 = {} \<and> fst (snd r2) = {} \<and> fst (snd (snd r2)) = fst (snd (snd r1)) \<and>
       (\<forall>ev \<in> set (snd (snd (snd r2))). \<not> is_error ev))"
proof -
  let ?e = "\<lparr>is_windows = False, fault_at = (\<lambda>source destination. NoFault),
              fsutil_ok = (\<lambda>source destination. False)\<rparr>"
  let ?f = "\<lparr>files = [''/dl/Naruto 001.mkv'' \<mapsto> ''data''], dirs = {''/dl'', ''/m''}\<rparr>"
  let ?standard = "[(''/dl/Naruto 001.mkv'', ''/m/Naruto/Naruto - 01.nfo'', 96 :: rat)]"
  let ?r1 = "place_files ?e ?standard [] ''c'' ''/m'' ?f"
  let ?r2 = "place_files ?e ?standard [] ''c'' ''/m'' (fst (snd (snd ?r1)))"
  have h1: "?r1 = (fst ?r1, fst (snd ?r1), fst (snd (snd ?r1)), snd (snd (snd ?r1)))" by simp
  have h2: "?r2 = (fst ?r2, fst (snd ?r2), fst (snd (snd ?r2)), snd (snd (snd ?r2)))" by simp
  have p: "fst ?r1 = {''/dl/Naruto 001.mkv''}" by code_simp
  have ok: "\<forall>ev \<in> set (snd (snd (snd ?r1))). \<not> is_error ev" by code_simp
  from placement_idempotent[OF h1 h2] ok p show ?thesis unfolding Let_def by blast
qed

subsection \<open>A failed hardlink\<close>

text \<open>
  C5. \<open>create_atomic_link\<close> catches the \<open>OSError\<close> of \<open>os.link\<close>, logs it and
  returns normally, so \<open>place_files\<close> counts the video as placed although nothing
  exists at the destination. In copy mode the same failure reaches the handler of
  \<open>place_files\<close> and the video is not counted.
\<close>

theorem failed_hardlink_counted_as_placed:
  "(let e = \<lparr>is_windows = False, fault_at = (\<lambda>source destination. TransferFault),
              fsutil_ok = (\<lambda>source destination. False)\<rparr>;
        f = \<lparr>files = [''/dl/Naruto 001.mkv'' \<mapsto> ''data''], dirs = {''/dl'', ''/m''}\<rparr>;
        standard = [(''/dl/Naruto 001.mkv'', ''/m/Naruto/Naruto - 01.nfo'', 96)]
    in (case place_files e standard [] ''h'' ''/m'' f of
          (placed, series, f', events) \<Rightarrow>
            placed = {''/dl/Naruto 001.mkv''} \<and>
            \<not> path_exists f' ''/m/Naruto/Naruto - 01.mkv'' \<and>
            events = [Info_placing ''/dl/Naruto 001.mkv'' ''/m/Naruto/Naruto - 01.mkv'' 96,
                      Error_hardlink ''/dl/Naruto 001.mkv'' ''/m/Naruto/Naruto - 01.mkv'']) \<and>
       (case place_files e standard [] ''c'' ''/m'' f of
          (placed, series, f', events) \<Rightarrow>
            placed = {} \<and>
            \<not> path_exists f' ''/m/Naruto/Naruto - 01.mkv'' \<and>
            events = [Info_placing ''/dl/Naruto 001.mkv'' ''/m/Naruto/Naruto - 01.mkv'' 96,
                      Error_placing ''/dl/Naruto 001.mkv'' ''/m/Naruto/Naruto - 01.mkv'']))"
  by code_simp

subsection \<open>A rename entry without its NFO\<close>

text \<open>
  C6. The One Piece step is the \<open>elif\<close> of the test on the rename dictionary, so a
  One Piece video that has a rename entry whose target is no NFO basename never reaches
  it: the video falls to step 3, which searches outside One Piece only, and ends
  unmatched, although the One Piece NFO of its own name scores 100. Without the entry
  the same video is matched by the fan-out.
\<close>

theorem dangling_override_skips_fan_out:
  "find_matches_default ratio [''/dl/One Piece 01.mkv''] [''/m/One Piece/One Piece 01.nfo'']
     [''One Piece 01'' \<mapsto> ''One Piece 001''] =
   Inr \<lparr>standard_matches = [],
        unmatched = [(''/dl/One Piece 01.mkv'', [(''One Piece 01'', 100, 0)])],
        one_piece_matches = []\<rparr> \<and>
   find_matches_default ratio [''/dl/One Piece 01.mkv''] [''/m/One Piece/One Piece 01.nfo'']
     Map.empty =
   Inr \<lparr>standard_matches = [], unmatched = [],
        one_piece_matches =
          [(''/dl/One Piece 01.mkv'', [(''/m/One Piece/One Piece 01.nfo'', 100)])]\<rparr>"
  by code_simp

subsection \<open>A copy that stops part-way\<close>

text \<open>
  C7, as stated, fails: \<open>copy_file\<close> hands the final path to \<open>shutil.copy2\<close>. A
  copy that stops after two of the four bytes leaves the two bytes at the destination
  path; the next run finds the path, skips it and logs nothing, and the truncated file
  stays.
\<close>

theorem truncated_copy_counterexample:
  "(let e1 = \<lparr>is_windows = False, fault_at = (\<lambda>source destination. PartialFault 2),
               fsutil_ok = (\<lambda>source destination. False)\<rparr>;
        e2 = \<lparr>is_windows = False, fault_at = (\<lambda>source destination. NoFault),
               fsutil_ok = (\<lambda>source destination. False)\<rparr>;
        f = \<lparr>files = [''/dl/Naruto 001.mkv'' \<mapsto> ''data''], dirs = {''/dl'', ''/m''}\<rparr>;
        standard = [(''/dl/Naruto 001.mkv'', ''/m/Naruto/Naruto - 01.nfo'', 96)]
    in (case copy_file e1 ''/dl/Naruto 001.mkv'' ''/m/Naruto/Naruto - 01.mkv'' f of
          (raised, f1) \<Rightarrow>
            raised = Some OSError \<and>
            files f1 ''/m/Naruto/Naruto - 01.mkv'' = Some ''da'') \<and>
       (case place_files e1 standard [] ''c'' ''/m'' f of
          (placed1, series1, f1, events1) \<Rightarrow>
            placed1 = {} \<and>
            files f1 ''/m/Naruto/Naruto - 01.mkv'' = Some ''da'' \<and>
            (case place_files e2 standard [] ''c'' ''/m'' f1 of
               (placed2, series2, f2, events2) \<Rightarrow>
                 placed2 = {} \<and> events2 = [] \<and>
                 files f2 ''/m/Naruto/Naruto - 01.mkv'' = Some ''da'')))"
  by code_simp

text \<open>
  C7, amended. A copy to a destination that does not exist writes at the final path and
  nowhere else: no other file changes. The destination holds nothing, or a prefix of the
  content of the source; it holds the whole content when the copy raises nothing, and the
  bytes written so far, visible at the final path, when the copy stops part-way. A later
  run that finds the path skips the triple.
\<close>

theorem copy_writes_final_path:
  assumes "\<not> path_exists f destination"
    and "files f source = Some content"
    and "copy_file e source destination f = (raised, f')"
  shows "(\<forall>p. p \<noteq> destination \<longrightarrow> files f' p = files f p) \<and>
         (files f' destination = None \<or>
          (\<exists>written. files f' destination = Some (take written content))) \<and>
         (raised = None \<longrightarrow> files f' destination = Some content) \<and>
         (\<forall>written. fault_at e source destination = PartialFault written \<and>
            dirname destination \<noteq> [] \<longrightarrow>
              raised = Some OSError \<and>
              files f' destination = Some (take written content) \<and>
              path_exists f' destination) \<and>
         (\<forall>e' m r video nfo score a b st.
            path_exists f' destination \<and> filesystem st = f' \<and>
            destination_of video nfo = destination \<longrightarrow>
              place_one e' m r video a b st (nfo, score) = st \<or>
              place_one e' m r video a b st (nfo, score) =
                st\<lparr>journal := journal st @ [Warning_ignored video nfo]\<rparr>)"
proof -
  define f1 where "f1 = makedirs (dirname destination) f"
  have n1: "\<not> path_exists f1 destination"
    unfolding f1_def using assms(1) by (rule makedirs_not_exists)
  then have nd: "destination \<notin> dirs f1" and nf: "files f1 destination = None"
    by (simp_all add: path_exists_def split: option.splits)
  have fl: "files f1 = files f" unfolding f1_def by (rule makedirs_files)
  have src: "files f1 source = Some content" using assms(2) fl by simp
  have cf: "copy_file e source destination f =
      (if dirname destination = [] \<or> fault_at e source destination = MakedirsFault
       then (Some OSError, f)
       else (case fault_at e source destination of
               NoFault \<Rightarrow> (None, f1\<lparr>files := (files f1)(destination \<mapsto> content)\<rparr>)
             | MakedirsFault \<Rightarrow> (Some OSError, f1)
             | TransferFault \<Rightarrow> (Some OSError, f1)
             | PartialFault written \<Rightarrow>
                 (Some OSError, f1\<lparr>files := (files f1)(destination \<mapsto> take written content)\<rparr>)))"
    using nd src unfolding copy_file_def Let_def f1_def[symmetric] by simp
  have none0: "files f destination = None"
    using assms(1) by (simp add: path_exists_def split: option.splits)
  have a: "\<forall>p. p \<noteq> destination \<longrightarrow> files f' p = files f p"
    using assms(3) fl unfolding cf by (auto split: if_splits fault.splits)
  have b: "files f' destination = None \<or>
          (\<exists>written. files f' destination = Some (take written content))"
  proof (cases "dirname destination = [] \<or> fault_at e source destination = MakedirsFault")
    case True
    then have "f' = f" using assms(3) unfolding cf by simp
    then show ?thesis using none0 by simp
  next
    case False
    show ?thesis
    proof (cases "fault_at e source destination")
      case NoFault
      then have "files f' destination = Some (take (length content) content)"
        using assms(3) False unfolding cf by auto
      then show ?thesis by blast
    next
      case MakedirsFault
      with False show ?thesis by simp
    next
      case TransferFault
      then have "f' = f1" using assms(3) False unfolding cf by auto
      then show ?thesis using nf by simp
    next
      case (PartialFault written)
      then have "files f' destination = Some (take written content)"
        using assms(3) False unfolding cf by auto
      then show ?thesis by blast
    qed
  qed
  have c: "raised = None \<longrightarrow> files f' destination = Some content"
    using assms(3) unfolding cf by (auto split: if_splits fault.splits)
  have d: "\<forall>written. fault_at e source destination = PartialFault written \<and>
            dirname destination \<noteq> [] \<longrightarrow>
              raised = Some OSError \<and>
              files f' destination = Some (take written content) \<and>
              path_exists f' destination"
    using assms(3) unfolding cf by (auto simp: path_exists_def)
  have e: "\<forall>e' m r video nfo score a b st.
            path_exists f' destination \<and> filesystem st = f' \<and>
            destination_of video nfo = destination \<longrightarrow>
              place_one e' m r video a b st (nfo, score) = st \<or>
              place_one e' m r video a b st (nfo, score) =
                st\<lparr>journal := journal st @ [Warning_ignored video nfo]\<rparr>"
    by (simp add: place_one_def)
  from a b c d e show ?thesis by blast
qed

theorem copy_writes_final_path_witness:
  "(let e = \<lparr>is_windows = False, fault_at = (\<lambda>source destination. PartialFault 2),
              fsutil_ok = (\<lambda>source destination. False)\<rparr>;
        f = \<lparr>files = [''/dl/Naruto 001.mkv'' \<mapsto> ''data''], dirs = {''/dl'', ''/m''}\<rparr>;
        r = copy_file e ''/dl/Naruto 001.mkv'' ''/m/Naruto/Naruto - 01.mkv'' f
    in \<not> path_exists f ''/m/Naruto/Naruto - 01.mkv'' \<and>
       files f ''/dl/Naruto 001.mkv'' = Some ''data'' \<and>
       fault_at e ''/dl/Naruto 001.mkv'' ''/m/Naruto/Naruto - 01.mkv'' = PartialFault 2 \<and>
       dirname ''/m/Naruto/Naruto - 01.mkv'' \<noteq> [] \<and>
       (\<forall>p. p \<noteq> ''/m/Naruto/Naruto - 01.mkv'' \<longrightarrow> files (snd r) p = files f p) \<and>
       fst r = Some OSError \<and>
       files (snd r) ''/m/Naruto/Naruto - 01.mkv'' = Some (take 2 ''data'') \<and>
       path_exists (snd r) ''/m/Naruto/Naruto - 01.mkv'')"
proof -
  let ?e = "\<lparr>is_windows = False, fault_at = (\<lambda>source destination. PartialFault 2),
              fsutil_ok = (\<lambda>source destination. False)\<rparr>"
  let ?f = "\<lparr>files = [''/dl/Naruto 001.mkv'' \<mapsto> ''data''], dirs = {''/dl'', ''/m''}\<rparr>"
  let ?r = "copy_file ?e ''/dl/Naruto 001.mkv'' ''/m/Naruto/Naruto - 01.mkv'' ?f"
  have h1: "\<not> path_exists ?f ''/m/Naruto/Naruto - 01.mkv''" by code_simp
  have h2: "files ?f ''/dl/Naruto 001.mkv'' = Some ''data''" by simp
  have h3: "?r = (fst ?r, snd ?r)" by simp
  have h4: "fault_at ?e ''/dl/Naruto 001.mkv'' ''/m/Naruto/Naruto - 01.mkv'' = PartialFault 2"
    by simp
  have h5: "dirname ''/m/Naruto/Naruto - 01.mkv'' \<noteq> []" by code_simp
  from copy_writes_final_path[OF h1 h2 h3] h1 h2 h4 h5 show ?thesis
    unfolding Let_def by blast
qed

subsection \<open>The threshold\<close>

text \<open>
  C8. The threshold is 95 unless the caller gives one, and it is inclusive. In step 2 a
  One Piece NFO scoring exactly the threshold passes the cutoff for every video: the
  fan-out takes place, and the NFO is among the destinations unless five destinations,
  each scoring at least the threshold, fill the list; it is among them whenever at most
  five One Piece NFOs reach the threshold. In step 3 a best NFO scoring exactly the
  threshold is the standard match. No result of steps 2 and 3 has a score below the
  threshold: a standard match has the score 101 of the rename dictionary or at least the
  threshold, and every fan-out destination has at least the threshold. A video that
  steps 1 to 3 leave is recorded as unmatched with at most five suggestions taken from
  all the NFOs without a cutoff, so an NFO below the threshold is among them when at
  most five NFOs exist.
\<close>

theorem threshold_inclusive:
  "default_threshold = 95 \<and>
   find_matches_default scorer video_files nfo_files rename_dict =
     find_matches scorer video_files nfo_files rename_dict 95 \<and>
   (rename_dict (stem video) = None \<and> is_one_piece (stem video) \<and>
    k \<in> set (keys (op_nfo_choices_of nfos)) \<and> scorer (stem video) k = threshold \<longrightarrow>
      (\<exists>dests nfo.
         match_video scorer nfos rename_dict threshold st video =
           Inr (st\<lparr>one_piece_matches := dict_set (one_piece_matches st) video dests\<rparr>) \<and>
         dict_get (op_nfo_choices_of nfos) k = Inr nfo \<and>
         ((nfo, threshold) \<in> set dests \<or>
          length dests = default_limit \<and>
          (\<forall>(other, score) \<in> set dests. threshold \<le> score)) \<and>
         (length (filter (\<lambda>c. threshold \<le> scorer (stem video) c)
                    (keys (op_nfo_choices_of nfos))) \<le> default_limit \<longrightarrow>
            (nfo, threshold) \<in> set dests))) \<and>
   (\<not> found_early scorer nfos rename_dict threshold video \<and>
    process_extractOne scorer (stem video) (keys (non_op_nfo_choices_of nfos)) =
      Some (k, threshold, i) \<longrightarrow>
      (\<exists>nfo. dict_get (non_op_nfo_choices_of nfos) k = Inr nfo \<and>
         match_video scorer nfos rename_dict threshold st video =
           Inr (st\<lparr>standard_matches := standard_matches st @ [(video, nfo, threshold)]\<rparr>))) \<and>
   (find_matches scorer video_files nfo_files rename_dict threshold = Inr r \<longrightarrow>
      (\<forall>(v, nfo, score) \<in> set (standard_matches r). score = override_score \<or> threshold \<le> score) \<and>
      (\<forall>(v, dests) \<in> set (one_piece_matches r). \<forall>(nfo, score) \<in> set dests. threshold \<le> score)) \<and>
   (\<not> found_early scorer nfos rename_dict threshold video \<and>
    (\<forall>c s j. process_extractOne scorer (stem video) (keys (non_op_nfo_choices_of nfos)) =
        Some (c, s, j) \<longrightarrow> s < threshold) \<longrightarrow>
      match_video scorer nfos rename_dict threshold st video =
        Inr (st\<lparr>unmatched := unmatched st @
               [(video, process_extract scorer (stem video) (keys nfos) None 5)]\<rparr>) \<and>
      length (process_extract scorer (stem video) (keys nfos) None 5) \<le> 5 \<and>
      (\<forall>c \<in> set (keys nfos). length (keys nfos) \<le> 5 \<longrightarrow>
         (\<exists>j. (c, scorer (stem video) c, j) \<in>
            set (process_extract scorer (stem video) (keys nfos) None 5))))"
proof -
  have a: "default_threshold = 95 \<and>
   find_matches_default scorer video_files nfo_files rename_dict =
     find_matches scorer video_files nfo_files rename_dict 95"
    by (simp add: default_threshold_def find_matches_default_def)
  have b: "\<exists>dests nfo.
         match_video scorer nfos rename_dict threshold st video =
           Inr (st\<lparr>one_piece_matches := dict_set (one_piece_matches st) video dests\<rparr>) \<and>
         dict_get (op_nfo_choices_of nfos) k = Inr nfo \<and>
         ((nfo, threshold) \<in> set dests \<or>
          length dests = default_limit \<and>
          (\<forall>(other, score) \<in> set dests. threshold \<le> score)) \<and>
         (length (filter (\<lambda>c. threshold \<le> scorer (stem video) c)
                    (keys (op_nfo_choices_of nfos))) \<le> default_limit \<longrightarrow>
            (nfo, threshold) \<in> set dests)"
    if "rename_dict (stem video) = None" "is_one_piece (stem video)"
      "k \<in> set (keys (op_nfo_choices_of nfos))" "scorer (stem video) k = threshold"
    using fan_out_eligible[where rename_dict = rename_dict and video = video and k = k
        and nfo_basenames = nfos and threshold = threshold and scorer = scorer and st = st]
      that by simp
  have c: "\<exists>nfo. dict_get (non_op_nfo_choices_of nfos) k = Inr nfo \<and>
         match_video scorer nfos rename_dict threshold st video =
           Inr (st\<lparr>standard_matches := standard_matches st @ [(video, nfo, threshold)]\<rparr>)"
    if "\<not> found_early scorer nfos rename_dict threshold video"
      "process_extractOne scorer (stem video) (keys (non_op_nfo_choices_of nfos)) =
         Some (k, threshold, i)"
    using standard_assigns[where rename_dict = rename_dict and video = video and k = k
        and nfos = nfos and T = threshold and scorer = scorer and st = st and s = threshold
        and i = i] that by simp
  have d: "(\<forall>(v, nfo, score) \<in> set (standard_matches r). score = override_score \<or> threshold \<le> score) \<and>
      (\<forall>(v, dests) \<in> set (one_piece_matches r). \<forall>(nfo, score) \<in> set dests. threshold \<le> score)"
    if "find_matches scorer video_files nfo_files rename_dict threshold = Inr r"
    using that by (rule result_bounds)
  have e1: "match_video scorer nfos rename_dict threshold st video =
        Inr (st\<lparr>unmatched := unmatched st @
               [(video, process_extract scorer (stem video) (keys nfos) None 5)]\<rparr>)"
    if "\<not> found_early scorer nfos rename_dict threshold video"
      "\<forall>c s j. process_extractOne scorer (stem video) (keys (non_op_nfo_choices_of nfos)) =
        Some (c, s, j) \<longrightarrow> s < threshold"
    using that by (rule unmatched_suggestions)
  have e2: "length (process_extract scorer (stem video) (keys nfos) None 5) \<le> 5"
    by (rule process_extract_length)
  have e3: "\<forall>c \<in> set (keys nfos). length (keys nfos) \<le> 5 \<longrightarrow>
         (\<exists>j. (c, scorer (stem video) c, j) \<in>
            set (process_extract scorer (stem video) (keys nfos) None 5))"
    using process_extract_complete[of _ "keys nfos" None scorer "stem video" 5] by simp
  from a b c d e1 e2 e3 show ?thesis by blast
qed

theorem threshold_inclusive_witness:
  "(Map.empty (stem ''/dl/One Piece Episode 1.mkv'') = (None :: string option) \<and>
    is_one_piece (stem ''/dl/One Piece Episode 1.mkv'') \<and>
    ''One Piece Episode 1ab'' \<in> set (keys (op_nfo_choices_of
       (nfo_basenames_of [''/m/One Piece/One Piece A.nfo'', ''/m/One Piece/One Piece B.nfo'',
          ''/m/One Piece/One Piece C.nfo'', ''/m/One Piece/One Piece D.nfo'',
          ''/m/One Piece/One Piece F.nfo'', ''/m/One Piece/One Piece Episode 1ab.nfo'']))) \<and>
    ratio (stem ''/dl/One Piece Episode 1.mkv'') ''One Piece Episode 1ab'' = 95 \<and>
    length (keys (op_nfo_choices_of
       (nfo_basenames_of [''/m/One Piece/One Piece A.nfo'', ''/m/One Piece/One Piece B.nfo'',
          ''/m/One Piece/One Piece C.nfo'', ''/m/One Piece/One Piece D.nfo'',
          ''/m/One Piece/One Piece F.nfo'', ''/m/One Piece/One Piece Episode 1ab.nfo'']))) = 6 \<and>
    length (filter (\<lambda>c. 95 \<le> ratio (stem ''/dl/One Piece Episode 1.mkv'') c)
       (keys (op_nfo_choices_of
          (nfo_basenames_of [''/m/One Piece/One Piece A.nfo'', ''/m/One Piece/One Piece B.nfo'',
          ''/m/One Piece/One Piece C.nfo'', ''/m/One Piece/One Piece D.nfo'',
          ''/m/One Piece/One Piece F.nfo'', ''/m/One Piece/One Piece Episode 1ab.nfo''])))) \<le> default_limit \<and>
    (\<exists>dests nfo.
       match_video ratio (nfo_basenames_of [''/m/One Piece/One Piece A.nfo'', ''/m/One Piece/One Piece B.nfo'',
          ''/m/One Piece/One Piece C.nfo'', ''/m/One Piece/One Piece D.nfo'',
          ''/m/One Piece/One Piece F.nfo'', ''/m/One Piece/One Piece Episode 1ab.nfo''])
           Map.empty 95 mstate_init ''/dl/One Piece Episode 1.mkv'' =
         Inr (mstate_init\<lparr>one_piece_matches :=
                dict_set (one_piece_matches mstate_init) ''/dl/One Piece Episode 1.mkv'' dests\<rparr>) \<and>
       dict_get (op_nfo_choices_of
           (nfo_basenames_of [''/m/One Piece/One Piece A.nfo'', ''/m/One Piece/One Piece B.nfo'',
          ''/m/One Piece/One Piece C.nfo'', ''/m/One Piece/One Piece D.nfo'',
          ''/m/One Piece/One Piece F.nfo'', ''/m/One Piece/One Piece Episode 1ab.nfo'']))
         ''One Piece Episode 1ab'' = Inr nfo \<and>
       (nfo, 95) \<in> set dests)) \<and>
   (\<not> found_early ratio (nfo_basenames_of [''/m/Naruto/Naruto Shippuden 01ab.nfo''])
        Map.empty 95 ''/dl/Naruto Shippuden 01.mkv'' \<and>
    process_extractOne ratio (stem ''/dl/Naruto Shippuden 01.mkv'')
        (keys (non_op_nfo_choices_of
           (nfo_basenames_of [''/m/Naruto/Naruto Shippuden 01ab.nfo'']))) =
      Some (''Naruto Shippuden 01ab'', 95, 0) \<and>
    (\<exists>nfo.
       dict_get (non_op_nfo_choices_of
           (nfo_basenames_of [''/m/Naruto/Naruto Shippuden 01ab.nfo'']))
         ''Naruto Shippuden 01ab'' = Inr nfo \<and>
       match_video ratio (nfo_basenames_of [''/m/Naruto/Naruto Shippuden 01ab.nfo''])
           Map.empty 95 mstate_init ''/dl/Naruto Shippuden 01.mkv'' =
         Inr (mstate_init\<lparr>standard_matches :=
                standard_matches mstate_init @ [(''/dl/Naruto Shippuden 01.mkv'', nfo, 95)]\<rparr>))) \<and>
   (\<not> found_early ratio (nfo_basenames_of [''/m/Naruto/Naruto Shippuden 01abc.nfo''])
        Map.empty 95 ''/dl/Naruto Shippuden 01.mkv'' \<and>
    process_extractOne ratio (stem ''/dl/Naruto Shippuden 01.mkv'')
        (keys (non_op_nfo_choices_of
           (nfo_basenames_of [''/m/Naruto/Naruto Shippuden 01abc.nfo'']))) =
      Some (''Naruto Shippuden 01abc'', 3800 / 41, 0) \<and>
    (3800 / 41 :: rat) < 95 \<and>
    match_video ratio (nfo_basenames_of [''/m/Naruto/Naruto Shippuden 01abc.nfo''])
        Map.empty 95 mstate_init ''/dl/Naruto Shippuden 01.mkv'' =
      Inr (mstate_init\<lparr>unmatched := unmatched mstate_init @
             [(''/dl/Naruto Shippuden 01.mkv'',
               process_extract ratio (stem ''/dl/Naruto Shippuden 01.mkv'')
                 (keys (nfo_basenames_of [''/m/Naruto/Naruto Shippuden 01abc.nfo''])) None 5)]\<rparr>) \<and>
    (\<exists>j. (''Naruto Shippuden 01abc'',
           ratio (stem ''/dl/Naruto Shippuden 01.mkv'') ''Naruto Shippuden 01abc'', j) \<in>
          set (process_extract ratio (stem ''/dl/Naruto Shippuden 01.mkv'')
                 (keys (nfo_basenames_of [''/m/Naruto/Naruto Shippuden 01abc.nfo''])) None 5)))"
proof -
  let ?vA = "''/dl/One Piece Episode 1.mkv''"
  let ?NA = "nfo_basenames_of [''/m/One Piece/One Piece A.nfo'', ''/m/One Piece/One Piece B.nfo'',
          ''/m/One Piece/One Piece C.nfo'', ''/m/One Piece/One Piece D.nfo'',
          ''/m/One Piece/One Piece F.nfo'', ''/m/One Piece/One Piece Episode 1ab.nfo'']"
  let ?vB = "''/dl/Naruto Shippuden 01.mkv''"
  let ?NB = "nfo_basenames_of [''/m/Naruto/Naruto Shippuden 01ab.nfo'']"
  let ?NC = "nfo_basenames_of [''/m/Naruto/Naruto Shippuden 01abc.nfo'']"
  have a1: "Map.empty (stem ?vA) = (None :: string option)" by simp
  have a2: "is_one_piece (stem ?vA)" by code_simp
  have a3: "''One Piece Episode 1ab'' \<in> set (keys (op_nfo_choices_of ?NA))" by code_simp
  have a4: "ratio (stem ?vA) ''One Piece Episode 1ab'' = 95" by code_simp
  have a5: "length (keys (op_nfo_choices_of ?NA)) = 6" by code_simp
  have a6: "length (filter (\<lambda>c. 95 \<le> ratio (stem ?vA) c) (keys (op_nfo_choices_of ?NA)))
      \<le> default_limit" by code_simp
  have b1: "\<not> found_early ratio ?NB Map.empty 95 ?vB" by code_simp
  have b2: "process_extractOne ratio (stem ?vB) (keys (non_op_nfo_choices_of ?NB)) =
      Some (''Naruto Shippuden 01ab'', 95, 0)" by code_simp
  have c1: "\<not> found_early ratio ?NC Map.empty 95 ?vB" by code_simp
  have c2: "process_extractOne ratio (stem ?vB) (keys (non_op_nfo_choices_of ?NC)) =
      Some (''Naruto Shippuden 01abc'', 3800 / 41, 0)" by code_simp
  have c3: "(3800 / 41 :: rat) < 95" by simp
  have c4: "\<forall>c s j. process_extractOne ratio (stem ?vB) (keys (non_op_nfo_choices_of ?NC)) =
      Some (c, s, j) \<longrightarrow> s < 95" using c2 c3 by simp
  have c5: "''Naruto Shippuden 01abc'' \<in> set (keys ?NC)" by code_simp
  have c6: "length (keys ?NC) \<le> 5" by code_simp
  note A = threshold_inclusive[where scorer = ratio and video = ?vA and nfos = ?NA
      and k = "''One Piece Episode 1ab''" and threshold = 95 and rename_dict = Map.empty
      and st = mstate_init]
  note B = threshold_inclusive[where scorer = ratio and video = ?vB and nfos = ?NB
      and k = "''Naruto Shippuden 01ab''" and threshold = 95 and rename_dict = Map.empty
      and st = mstate_init and i = 0]
  note C = threshold_inclusive[where scorer = ratio and video = ?vB and nfos = ?NC
      and threshold = 95 and rename_dict = Map.empty and st = mstate_init]
  have ra: "\<exists>dests nfo.
       match_video ratio ?NA Map.empty 95 mstate_init ?vA =
         Inr (mstate_init\<lparr>one_piece_matches :=
                dict_set (one_piece_matches mstate_init) ?vA dests\<rparr>) \<and>
       dict_get (op_nfo_choices_of ?NA) ''One Piece Episode 1ab'' = Inr nfo \<and>
       (nfo, 95) \<in> set dests"
    using A a1 a2 a3 a4 a6 by blast
  have rb: "\<exists>nfo. dict_get (non_op_nfo_choices_of ?NB) ''Naruto Shippuden 01ab'' = Inr nfo \<and>
       match_video ratio ?NB Map.empty 95 mstate_init ?vB =
         Inr (mstate_init\<lparr>standard_matches :=
                standard_matches mstate_init @ [(?vB, nfo, 95)]\<rparr>)"
    using B b1 b2 by blast
  have rc1: "match_video ratio ?NC Map.empty 95 mstate_init ?vB =
      Inr (mstate_init\<lparr>unmatched := unmatched mstate_init @
             [(?vB, process_extract ratio (stem ?vB) (keys ?NC) None 5)]\<rparr>)"
    using C c1 c4 by blast
  have rc2: "\<exists>j. (''Naruto Shippuden 01abc'', ratio (stem ?vB) ''Naruto Shippuden 01abc'', j) \<in>
          set (process_extract ratio (stem ?vB) (keys ?NC) None 5)"
    using C c1 c4 c5 c6 by blast
  from a1 a2 a3 a4 a5 a6 ra b1 b2 rb c1 c2 c3 rc1 rc2 show ?thesis by blast
qed

subsection \<open>Every video in exactly one result\<close>

text \<open>
  C9. \<open>find_matches\<close> raises nothing, and in its result every video of the input is
  in exactly one of the four outcomes: assigned by the rename dictionary, assigned by the
  One Piece fan-out, assigned by the standard match, or unmatched with its suggestions.
  A video that is not in the input is in none.
\<close>

theorem matcher_partition:
  "\<exists>r. find_matches scorer video_files nfo_files rename_dict threshold = Inr r \<and>
        (\<forall>video \<in> set video_files.
           count_true [via_override r video, via_fan_out r video, via_standard r video,
                       is_unmatched r video] = 1) \<and>
        (\<forall>video. video \<notin> set video_files \<longrightarrow>
           count_true [via_override r video, via_fan_out r video, via_standard r video,
                       is_unmatched r video] = 0)"
proof -
  let ?D = "outcome_of scorer (nfo_basenames_of nfo_files) rename_dict threshold"
  let ?r = "foldl merge mstate_init (map ?D video_files)"
  have sh: "\<And>w. shape threshold w (?D w)" using outcome_of_merge by blast
  have r: "find_matches scorer video_files nfo_files rename_dict threshold = Inr ?r"
    unfolding find_matches_def by (rule match_videos_merge)
  note v = result_views[where D = ?D and videos = video_files and T = threshold, OF sh]
  have "count_true [via_override ?r video, via_fan_out ?r video, via_standard ?r video,
                       is_unmatched ?r video] = 1" if "video \<in> set video_files" for video
    using that shape_count[OF sh, of video] by (simp add: v)
  moreover have "count_true [via_override ?r video, via_fan_out ?r video, via_standard ?r video,
                       is_unmatched ?r video] = 0" if "video \<notin> set video_files" for video
    using that by (simp add: v count_true_def)
  ultimately show ?thesis using r by blast
qed

theorem matcher_partition_witness:
  "''/dl/Film X.mkv'' \<in> set [''/dl/Film X.mkv'', ''/dl/One Piece 01.mkv'',
                               ''/dl/Naruto - 01.mkv'', ''/dl/Xyz.mkv''] \<and>
   ''/dl/Other.mkv'' \<notin> set [''/dl/Film X.mkv'', ''/dl/One Piece 01.mkv'',
                               ''/dl/Naruto - 01.mkv'', ''/dl/Xyz.mkv''] \<and>
   (\<exists>r. find_matches ratio
           [''/dl/Film X.mkv'', ''/dl/One Piece 01.mkv'', ''/dl/Naruto - 01.mkv'', ''/dl/Xyz.mkv'']
           [''/m/B/Film Y.nfo'', ''/m/One Piece/One Piece 01.nfo'', ''/m/Naruto/Naruto - 01.nfo'']
           [''Film X'' \<mapsto> ''Film Y''] 95 = Inr r \<and>
         count_true [via_override r ''/dl/Film X.mkv'', via_fan_out r ''/dl/Film X.mkv'',
                     via_standard r ''/dl/Film X.mkv'', is_unmatched r ''/dl/Film X.mkv''] = 1 \<and>
         count_true [via_override r ''/dl/Other.mkv'', via_fan_out r ''/dl/Other.mkv'',
                     via_standard r ''/dl/Other.mkv'', is_unmatched r ''/dl/Other.mkv''] = 0)"
proof -
  let ?vs = "[''/dl/Film X.mkv'', ''/dl/One Piece 01.mkv'', ''/dl/Naruto - 01.mkv'', ''/dl/Xyz.mkv'']"
  have m1: "''/dl/Film X.mkv'' \<in> set ?vs" by simp
  have m2: "''/dl/Other.mkv'' \<notin> set ?vs" by simp
  from matcher_partition[of ratio ?vs
      "[''/m/B/Film Y.nfo'', ''/m/One Piece/One Piece 01.nfo'', ''/m/Naruto/Naruto - 01.nfo'']"
      "[''Film X'' \<mapsto> ''Film Y'']" 95]
  show ?thesis using m1 m2 by blast
qed

subsection \<open>The release gate of the placer\<close>



end
